theory Spec2Isabelle
  imports Main "HOL-Library.Word" "HOL-Library.Log_Nat"
begin

section \<open>The NDI output of obs-ndi (src/obs-ndi-output.cpp)\<close>

text \<open>
  A shallow embedding of \<^verbatim>\<open>src/obs-ndi-output.cpp\<close>: the I444 to UYVY converter, the
  output instance (\<^verbatim>\<open>struct ndi_output\<close>) and its callbacks create, update, start, stop,
  raw_video and raw_audio.

  Conventions of the model.
  \<^item> \<^verbatim>\<open>uint8_t\<close>, \<^verbatim>\<open>uint32_t\<close> and \<^verbatim>\<open>size_t\<close>/\<^verbatim>\<open>uint64_t\<close> are words of 8, 32 and 64
    bits; a C \<^verbatim>\<open>int\<close> is a 32-bit word read with \<open>sint\<close> where its sign matters.
  \<^item> A pointer to bytes is modelled by the memory it points to, \<open>mem\<close>: the byte at
    every non-negative offset from the pointer. A null pointer is \<open>None\<close>.
  \<^item> Calls into the host (libobs) and into the vendor library (\<^verbatim>\<open>ndiLib\<close>) are recorded,
    in program order, in a list of \<open>call\<close>s that every callback returns next to the
    new instance state. What those calls answer is a parameter (\<open>host\<close>).
  \<^item> \<^verbatim>\<open>blog\<close> only logs; it is left out.
\<close>

type_synonym u8 = "8 word"
type_synonym u32 = "32 word"
type_synonym u64 = "64 word"
type_synonym c_int = "32 word"
type_synonym mem = "nat \<Rightarrow> u8"

subsection \<open>convert_i444_to_uyvy\<close>

text \<open>
  The converter reads the three planes \<^verbatim>\<open>input[0..2]\<close> and writes through \<^verbatim>\<open>output\<close>.
  Its model returns the memory accesses of the call in program order: \<open>Load p a\<close> reads
  the byte at offset \<open>a\<close> of \<^verbatim>\<open>input[p]\<close>, \<open>Store a v\<close> writes \<open>v\<close> at offset \<open>a\<close> of
  \<^verbatim>\<open>output\<close>. The planes are read-only for the call: the one caller passes the host's
  frame as input and the instance's own \<^verbatim>\<open>conv_buffer\<close> as output.
\<close>

datatype access = Load nat nat | Store nat u8

definition min_uint32 :: "u32 \<Rightarrow> u32 \<Rightarrow> u32" where
  "min_uint32 a b = (if a < b then a else b)"

text \<open>
  One pass of the body of the inner loop, with \<^verbatim>\<open>_Y\<close>, \<^verbatim>\<open>_U\<close>, \<^verbatim>\<open>_V\<close> and \<^verbatim>\<open>_out\<close> at the
  offsets \<open>Yp\<close>, \<open>Up\<close>, \<open>Vp\<close> and \<open>outp\<close>:
  \<^verbatim>\<open>*(_out++) = *(_U++); _U++; *(_out++) = *(_Y++); *(_out++) = *(_V++); _V++; *(_out++) = *(_Y++);\<close>
\<close>

definition pair_accesses :: "(nat \<Rightarrow> mem) \<Rightarrow> nat \<Rightarrow> nat \<Rightarrow> nat \<Rightarrow> nat \<Rightarrow> access list" where
  "pair_accesses input Yp Up Vp outp =
     [Load 1 Up, Store outp (input 1 Up),
      Load 0 Yp, Store (outp + 1) (input 0 Yp),
      Load 2 Vp, Store (outp + 2) (input 2 Vp),
      Load 0 (Yp + 1), Store (outp + 3) (input 0 (Yp + 1))]"

text \<open>
  The inner loop \<^verbatim>\<open>for (uint32_t x = 0; x < width; x += 2)\<close>. The counter is a 32-bit
  word, so \<^verbatim>\<open>x += 2\<close> wraps: for \<^verbatim>\<open>width = 0xFFFFFFFF\<close> the even counter never reaches
  the bound and the loop does not end. Not returning is the value \<open>None\<close>.
\<close>

partial_function (option) conv_pairs ::
  "(nat \<Rightarrow> mem) \<Rightarrow> u32 \<Rightarrow> u32 \<Rightarrow> nat \<Rightarrow> nat \<Rightarrow> nat \<Rightarrow> nat \<Rightarrow> access list
     \<Rightarrow> access list option" where
  "conv_pairs input width x Yp Up Vp outp acc =
     (if x < width
      then conv_pairs input width (x + 2) (Yp + 2) (Up + 2) (Vp + 2) (outp + 4)
             (acc @ pair_accesses input Yp Up Vp outp)
      else Some acc)"

text \<open>
  The outer loop \<^verbatim>\<open>for (uint32_t y = start_y; y < end_y; ++y)\<close>. The row pointers are
  \<^verbatim>\<open>base + (size_t)y * (size_t)linesize\<close>: a product of two 32-bit values, which a 64-bit
  \<^verbatim>\<open>size_t\<close> holds without wrapping.
\<close>

function conv_rows ::
  "(nat \<Rightarrow> mem) \<Rightarrow> (nat \<Rightarrow> u32) \<Rightarrow> u32 \<Rightarrow> u32 \<Rightarrow> u32 \<Rightarrow> u32 \<Rightarrow> access list
     \<Rightarrow> access list option" where
  "conv_rows input in_linesize width y end_y out_linesize acc =
     (if y < end_y
      then (case conv_pairs input width 0
                   (unat y * unat (in_linesize 0))
                   (unat y * unat (in_linesize 1))
                   (unat y * unat (in_linesize 2))
                   (unat y * unat out_linesize) acc of
              None \<Rightarrow> None
            | Some acc' \<Rightarrow> conv_rows input in_linesize width (y + 1) end_y out_linesize acc')
      else Some acc)"
  by pat_completeness auto
termination
proof (relation "measure (\<lambda>(input, in_linesize, width, y, end_y, out_linesize, acc). unat end_y - unat y)")
  show "wf (measure (\<lambda>(input :: nat \<Rightarrow> mem, in_linesize :: nat \<Rightarrow> u32, width :: u32, y :: u32,
      end_y :: u32, out_linesize :: u32, acc :: access list). unat end_y - unat y))"
    by simp
next
  fix input :: "nat \<Rightarrow> mem" and in_linesize :: "nat \<Rightarrow> u32" and width y end_y out_linesize :: u32
    and acc x2 :: "access list"
  assume lt: "y < end_y"
  then have a: "unat y < unat end_y" by (simp add: word_less_nat_alt)
  have "unat end_y < 2 ^ 32" using unsigned_less [of end_y] by simp
  with a have "unat y + unat (1 :: u32) < 2 ^ LENGTH(32)" by simp
  then have "unat (y + 1) = unat y + unat (1 :: u32)" by (simp only: unat_add_lem)
  with a show "((input, in_linesize, width, y + 1, end_y, out_linesize, x2),
      (input, in_linesize, width, y, end_y, out_linesize, acc))
    \<in> measure (\<lambda>(input, in_linesize, width, y, end_y, out_linesize, acc). unat end_y - unat y)"
    by simp
qed

definition convert_i444_to_uyvy ::
  "(nat \<Rightarrow> mem) \<Rightarrow> (nat \<Rightarrow> u32) \<Rightarrow> u32 \<Rightarrow> u32 \<Rightarrow> u32 \<Rightarrow> access list option" where
  "convert_i444_to_uyvy input in_linesize start_y end_y out_linesize =
     (let width = min_uint32 (in_linesize 0) out_linesize
      in conv_rows input in_linesize width start_y end_y out_linesize [])"

text \<open>The effect of the stores of a call on the memory behind \<^verbatim>\<open>output\<close>.\<close>

fun write_back :: "access list \<Rightarrow> mem \<Rightarrow> mem" where
  "write_back [] m = m"
| "write_back (Load p a # as) m = write_back as m"
| "write_back (Store a v # as) m = write_back as (m(a := v))"

text \<open>Projections of a list of accesses: the stores, their offsets, and the offsets
  read from one plane.\<close>

fun stores :: "access list \<Rightarrow> (nat \<times> u8) list" where
  "stores [] = []"
| "stores (Load p a # as) = stores as"
| "stores (Store a v # as) = (a, v) # stores as"

fun loads :: "nat \<Rightarrow> access list \<Rightarrow> nat list" where
  "loads p [] = []"
| "loads p (Load q a # as) = (if q = p then a # loads p as else loads p as)"
| "loads p (Store a v # as) = loads p as"

subsection \<open>The double of the negotiated frame rate\<close>

text \<open>
  \<^verbatim>\<open>video_framerate\<close> is a C \<^verbatim>\<open>double\<close>. \<open>Double m e\<close> is the finite binary64 value
  \<open>m * 2 ^ e\<close> (infinities and NaN are not modelled: the host's frame rate is the
  quotient of two positive 32-bit integers).

  \<open>round_to_double M E\<close> is the binary64 value nearest to \<open>M * 2 ^ E\<close>, ties to even
  (the default rounding mode): at most 53 significant bits, and no bit below
  \<open>2 ^ - 1074\<close>. \<open>double_mul\<close> is the \<^verbatim>\<open>*\<close> of two doubles: the exact product, rounded.
  \<open>double_to_int\<close> is the cast \<^verbatim>\<open>(int)\<close>: the value with its fraction discarded
  (rounding towards zero). C leaves the cast undefined when that does not fit an
  \<^verbatim>\<open>int\<close>; the conversion instruction of x86-64 then gives \<^verbatim>\<open>INT_MIN\<close>, and so does the
  model. A product too large for a double is an infinity in C and a finite value
  beyond the \<^verbatim>\<open>int\<close> range here: the cast gives \<^verbatim>\<open>INT_MIN\<close> for both.
\<close>

datatype double = Double int int

fun dval :: "double \<Rightarrow> real" where
  "dval (Double m e) = of_int m * 2 powi e"

definition round_to_double :: "int \<Rightarrow> int \<Rightarrow> double" where
  "round_to_double M E =
     (let k = max (bitlen \<bar>M\<bar> - 53) (- 1074 - E) in
      if k \<le> 0 then Double M E
      else
        let q = \<bar>M\<bar> div 2 ^ nat k;
            r = \<bar>M\<bar> mod 2 ^ nat k;
            h = 2 ^ nat (k - 1);
            q' = (if h < r \<or> (r = h \<and> odd q) then q + 1 else q)
        in Double (sgn M * q') (E + k))"

fun double_mul :: "double \<Rightarrow> double \<Rightarrow> double" where
  "double_mul (Double m1 e1) (Double m2 e2) = round_to_double (m1 * m2) (e1 + e2)"

fun double_to_int :: "double \<Rightarrow> int" where
  "double_to_int (Double m e) =
     (let t = (if 0 \<le> e then m * 2 ^ nat e else sgn m * (\<bar>m\<bar> div 2 ^ nat (- e)))
      in if - (2 ^ 31) \<le> t \<and> t < 2 ^ 31 then t else - (2 ^ 31))"

definition double_of_int :: "int \<Rightarrow> double" where
  "double_of_int n = round_to_double n 0"

subsection \<open>Host and vendor interfaces\<close>

text \<open>
  The types below belong to libobs and to the NDI SDK, whose headers are not part of
  the source file. Each is modelled by what the source file reads or writes of it.

  \<open>video_format\<close>: the host's pixel format. The six formats the \<^verbatim>\<open>switch\<close> of
  \<^verbatim>\<open>ndi_output_start\<close> names, and \<open>VIDEO_FORMAT_other n\<close> for every other enumerator (its
  number \<open>n\<close> is what the warning prints).

  \<open>fourcc\<close>: \<^verbatim>\<open>NDIlib_FourCC_video_type_e\<close>. Modelled from the spec: a FourCC is a
  four-byte code of printable characters, hence not zero; \<open>FourCC_zero\<close> is the value
  of the field in a zero-filled instance, which is none of the codes.
\<close>

datatype video_format =
    VIDEO_FORMAT_I444 | VIDEO_FORMAT_NV12 | VIDEO_FORMAT_I420
  | VIDEO_FORMAT_RGBA | VIDEO_FORMAT_BGRA | VIDEO_FORMAT_BGRX
  | VIDEO_FORMAT_other nat

datatype fourcc =
    FourCC_zero
  | NDIlib_FourCC_video_type_UYVY | NDIlib_FourCC_video_type_NV12
  | NDIlib_FourCC_video_type_I420 | NDIlib_FourCC_video_type_RGBA
  | NDIlib_FourCC_video_type_BGRA | NDIlib_FourCC_video_type_BGRX

datatype audio_fourcc = NDIlib_FourCC_audio_type_FLTP

datatype frame_format = NDIlib_frame_format_type_progressive

datatype timecode = Timecode u64 | NDIlib_send_timecode_synthesize

datatype capture_flag = OBS_OUTPUT_VIDEO | OBS_OUTPUT_AUDIO

datatype uyvy_conv_function = Convert_i444_to_uyvy

text \<open>What \<^verbatim>\<open>video_output_get_format/width/height/frame_rate\<close> answer for a \<^verbatim>\<open>video_t\<close>,
  and \<^verbatim>\<open>audio_output_get_sample_rate/channels\<close> for an \<^verbatim>\<open>audio_t\<close>.\<close>

record video_t =
  vo_format :: video_format
  vo_width :: u32
  vo_height :: u32
  vo_frame_rate :: double

record audio_t =
  ao_sample_rate :: u32
  ao_channels :: u64

text \<open>The settings object, by its two getters.\<close>

record obs_data_t =
  obs_data_get_string :: "string \<Rightarrow> string"
  obs_data_get_bool :: "string \<Rightarrow> bool"

record NDIlib_send_create_t =
  p_ndi_name :: string
  p_groups :: "string option"
  clock_video :: bool
  clock_audio :: bool

text \<open>The frame descriptors, by the fields the source file sets (the others stay zero).
  \<open>p_data\<close> is the memory the data pointer points to when the frame is sent.\<close>

record NDIlib_video_frame_v2_t =
  xres :: u32
  yres :: u32
  FourCC :: fourcc
  frame_rate_N :: int
  frame_rate_D :: int
  frame_format_type :: frame_format
  timecode :: timecode
  p_data :: "mem option"
  line_stride_in_bytes :: u32

record NDIlib_audio_frame_v3_t =
  sample_rate :: u32
  no_channels :: c_int
  no_samples :: u32
  a_timecode :: timecode
  a_FourCC :: audio_fourcc
  a_p_data :: "mem option"
  channel_stride_in_bytes :: c_int

text \<open>The host's frames: \<^verbatim>\<open>struct video_data\<close> and \<^verbatim>\<open>struct audio_data\<close>.\<close>

record video_data =
  v_data :: "nat \<Rightarrow> mem"
  v_linesize :: "nat \<Rightarrow> u32"
  v_timestamp :: u64

record audio_data =
  a_data :: "nat \<Rightarrow> mem"
  a_frames :: u32

text \<open>
  The answers of the environment: the host's media handles of the output (\<open>None\<close> is
  a null handle), the vendor's \<^verbatim>\<open>send_create\<close> (\<open>None\<close> is a null sender), the host's
  \<^verbatim>\<open>obs_output_begin_data_capture\<close>, and the bytes found in a block fresh from \<^verbatim>\<open>bmalloc\<close>
  (which does not initialise it).
\<close>

record host =
  obs_output_video :: "video_t option"
  obs_output_audio :: "audio_t option"
  send_create :: "NDIlib_send_create_t \<Rightarrow> nat option"
  obs_output_begin_data_capture :: "capture_flag set \<Rightarrow> bool"
  bmalloc :: "nat \<Rightarrow> mem"

datatype call =
    Send_create NDIlib_send_create_t
  | Send_destroy nat
  | Send_send_video_async_v2 "nat option" NDIlib_video_frame_v2_t
  | Send_send_audio_v3 "nat option" NDIlib_audio_frame_v3_t
  | Begin_data_capture "capture_flag set"
  | End_data_capture
  | New_array u64
  | Delete_array
  | Bmalloc u64
  | Bfree

subsection \<open>The output instance\<close>

text \<open>\<^verbatim>\<open>struct ndi_output\<close>. The field \<^verbatim>\<open>output\<close> is \<open>obs_output\<close> here (the source's name
  is a keyword of the prover); the instance pointer \<^verbatim>\<open>o\<close> is \<open>o'\<close>.\<close>

record ndi_output =
  obs_output :: nat
  ndi_name :: string
  uses_video :: bool
  uses_audio :: bool
  started :: bool
  ndi_sender :: "nat option"
  frame_width :: u32
  frame_height :: u32
  frame_fourcc :: fourcc
  video_framerate :: double
  audio_channels :: u64
  audio_samplerate :: u32
  conv_buffer :: "mem option"
  conv_linesize :: u32
  conv_function :: "uyvy_conv_function option"
  audio_conv_buffer :: "mem option"
  audio_conv_buffer_size :: u64

text \<open>\<^verbatim>\<open>bzalloc(sizeof(struct ndi_output))\<close>: every field zero.\<close>

definition bzalloc_ndi_output :: ndi_output where
  "bzalloc_ndi_output =
     \<lparr>obs_output = 0, ndi_name = [], uses_video = False, uses_audio = False, started = False,
      ndi_sender = None, frame_width = 0, frame_height = 0, frame_fourcc = FourCC_zero,
      video_framerate = Double 0 0, audio_channels = 0, audio_samplerate = 0,
      conv_buffer = None, conv_linesize = 0, conv_function = None,
      audio_conv_buffer = None, audio_conv_buffer_size = 0\<rparr>"

definition ndi_output_update :: "ndi_output \<Rightarrow> obs_data_t \<Rightarrow> ndi_output" where
  "ndi_output_update o' settings =
     o'\<lparr>ndi_name := obs_data_get_string settings ''ndi_name'',
        uses_video := obs_data_get_bool settings ''uses_video'',
        uses_audio := obs_data_get_bool settings ''uses_audio''\<rparr>"

definition ndi_output_create :: "obs_data_t \<Rightarrow> nat \<Rightarrow> ndi_output" where
  "ndi_output_create settings out =
     ndi_output_update
       (bzalloc_ndi_output\<lparr>obs_output := out, started := False,
          audio_conv_buffer := None, audio_conv_buffer_size := 0\<rparr>)
       settings"

subsection \<open>ndi_output_start\<close>

text \<open>
  The \<^verbatim>\<open>switch (format)\<close>: the fields it sets and the allocation it makes, or \<open>None\<close>
  for the \<^verbatim>\<open>default\<close> branch, which returns \<^verbatim>\<open>false\<close> from start. The array is
  \<^verbatim>\<open>new uint8_t[(size_t)height * (size_t)o->conv_linesize * 2]()\<close>, zero-initialised;
  \<^verbatim>\<open>width * 2\<close> is a 32-bit product.
\<close>

fun start_switch :: "video_format \<Rightarrow> u32 \<Rightarrow> u32 \<Rightarrow> ndi_output \<Rightarrow> (ndi_output \<times> call list) option" where
  "start_switch VIDEO_FORMAT_I444 width height o' =
     (let o1 = o'\<lparr>conv_function := Some Convert_i444_to_uyvy,
                   frame_fourcc := NDIlib_FourCC_video_type_UYVY,
                   conv_linesize := width * 2\<rparr>
      in Some (o1\<lparr>conv_buffer := Some (\<lambda>a. 0)\<rparr>,
               [New_array (ucast height * ucast (conv_linesize o1) * 2)]))"
| "start_switch VIDEO_FORMAT_NV12 width height o' =
     Some (o'\<lparr>frame_fourcc := NDIlib_FourCC_video_type_NV12\<rparr>, [])"
| "start_switch VIDEO_FORMAT_I420 width height o' =
     Some (o'\<lparr>frame_fourcc := NDIlib_FourCC_video_type_I420\<rparr>, [])"
| "start_switch VIDEO_FORMAT_RGBA width height o' =
     Some (o'\<lparr>frame_fourcc := NDIlib_FourCC_video_type_RGBA\<rparr>, [])"
| "start_switch VIDEO_FORMAT_BGRA width height o' =
     Some (o'\<lparr>frame_fourcc := NDIlib_FourCC_video_type_BGRA\<rparr>, [])"
| "start_switch VIDEO_FORMAT_BGRX width height o' =
     Some (o'\<lparr>frame_fourcc := NDIlib_FourCC_video_type_BGRX\<rparr>, [])"
| "start_switch (VIDEO_FORMAT_other n) width height o' = None"

text \<open>The block \<^verbatim>\<open>if (o->uses_video && video) { ... }\<close>, given the video handle: the
  instance, the capture flags and the calls so far, or \<open>None\<close> when start returns
  \<^verbatim>\<open>false\<close> from inside the switch.\<close>

definition start_video ::
  "video_t \<Rightarrow> ndi_output \<Rightarrow> (ndi_output \<times> capture_flag set \<times> call list) option" where
  "start_video video o' =
     (let format = vo_format video; width = vo_width video; height = vo_height video
      in case start_switch format width height o' of
           None \<Rightarrow> None
         | Some (o1, calls) \<Rightarrow>
             Some (o1\<lparr>frame_width := width, frame_height := height,
                       video_framerate := vo_frame_rate video\<rparr>,
                   {OBS_OUTPUT_VIDEO}, calls))"

text \<open>From \<^verbatim>\<open>NDIlib_send_create_t send_desc\<close> to the end of start.\<close>

definition start_sender ::
  "host \<Rightarrow> ndi_output \<Rightarrow> capture_flag set \<Rightarrow> call list \<Rightarrow> bool \<times> ndi_output \<times> call list" where
  "start_sender h o' flags calls =
     (let send_desc = \<lparr>p_ndi_name = ndi_name o', p_groups = None,
                        clock_video = False, clock_audio = False\<rparr>;
          o1 = o'\<lparr>ndi_sender := send_create h send_desc\<rparr>
      in if ndi_sender o1 \<noteq> None
         then let o2 = o1\<lparr>started := obs_output_begin_data_capture h flags\<rparr>
              in (started o2, o2, calls @ [Send_create send_desc, Begin_data_capture flags])
         else (started o1, o1, calls @ [Send_create send_desc]))"

text \<open>The blocks \<^verbatim>\<open>if (o->uses_video && video)\<close> and \<^verbatim>\<open>if (o->uses_audio && audio)\<close>, on
  a handle that may be null.\<close>

definition start_video_block ::
  "video_t option \<Rightarrow> ndi_output \<Rightarrow> (ndi_output \<times> capture_flag set \<times> call list) option" where
  "start_video_block video o' =
     (case video of
        None \<Rightarrow> Some (o', {}, [])
      | Some v \<Rightarrow> if uses_video o' then start_video v o' else Some (o', {}, []))"

definition start_audio_block ::
  "audio_t option \<Rightarrow> ndi_output \<Rightarrow> capture_flag set \<Rightarrow> ndi_output \<times> capture_flag set" where
  "start_audio_block audio o' flags =
     (case audio of
        None \<Rightarrow> (o', flags)
      | Some a \<Rightarrow>
          if uses_audio o'
          then (o'\<lparr>audio_samplerate := ao_sample_rate a, audio_channels := ao_channels a\<rparr>,
                flags \<union> {OBS_OUTPUT_AUDIO})
          else (o', flags))"

definition ndi_output_start :: "host \<Rightarrow> ndi_output \<Rightarrow> bool \<times> ndi_output \<times> call list" where
  "ndi_output_start h o' =
     (if started o' then (False, o', [])
      else
        let video = obs_output_video h; audio = obs_output_audio h in
        if video = None \<and> audio = None then (False, o', [])
        else
          case start_video_block video o' of
            None \<Rightarrow> (False, o', [])
          | Some (o1, flags, calls) \<Rightarrow>
              (case start_audio_block audio o1 flags of
                 (o2, flags2) \<Rightarrow> start_sender h o2 flags2 calls))"

subsection \<open>ndi_output_stop\<close>

definition ndi_output_stop :: "ndi_output \<Rightarrow> ndi_output \<times> call list" where
  "ndi_output_stop o' =
     (if \<not> started o' then (o', [])
      else
        let o1 = o'\<lparr>started := False\<rparr>;
            (o2, calls2) = (case ndi_sender o1 of
                              Some sender \<Rightarrow> (o1\<lparr>ndi_sender := None\<rparr>, [Send_destroy sender])
                            | None \<Rightarrow> (o1, []));
            (o3, calls3) = (if conv_buffer o2 \<noteq> None
                            then (o2\<lparr>conv_buffer := None, conv_function := None\<rparr>, [Delete_array])
                            else (o2, []));
            o4 = o3\<lparr>frame_width := 0, frame_height := 0, video_framerate := Double 0 0,
                    audio_channels := 0, audio_samplerate := 0\<rparr>
        in (o4, [End_data_capture] @ calls2 @ calls3))"

subsection \<open>ndi_output_rawvideo\<close>

text \<open>
  The result is \<open>None\<close> when the call does not return: the converter does not end, the
  call goes through a null \<^verbatim>\<open>conv_function\<close>, or the converter stores through a null
  \<^verbatim>\<open>conv_buffer\<close>. \<^verbatim>\<open>frame->timestamp / 100\<close> is a 64-bit unsigned division.
\<close>

definition ndi_output_rawvideo :: "ndi_output \<Rightarrow> video_data \<Rightarrow> (ndi_output \<times> call list) option" where
  "ndi_output_rawvideo o' frame =
     (if \<not> started o' \<or> frame_width o' = 0 \<or> frame_height o' = 0 then Some (o', [])
      else
        let width = frame_width o'; height = frame_height o';
            video_frame =
              \<lparr>xres = width, yres = height, FourCC = frame_fourcc o',
               frame_rate_N = double_to_int (double_mul (video_framerate o') (double_of_int 100)),
               frame_rate_D = 100,
               frame_format_type = NDIlib_frame_format_type_progressive,
               timecode = Timecode (v_timestamp frame div 100),
               p_data = None, line_stride_in_bytes = 0\<rparr>
        in if FourCC video_frame = NDIlib_FourCC_video_type_UYVY
           then (case conv_function o' of
                   None \<Rightarrow> None
                 | Some Convert_i444_to_uyvy \<Rightarrow>
                     (case convert_i444_to_uyvy (v_data frame) (v_linesize frame) 0 height
                             (conv_linesize o') of
                        None \<Rightarrow> None
                      | Some accesses \<Rightarrow>
                          if conv_buffer o' = None \<and> stores accesses \<noteq> [] then None
                          else
                            let o1 = o'\<lparr>conv_buffer := map_option (write_back accesses) (conv_buffer o')\<rparr>
                            in Some (o1, [Send_send_video_async_v2 (ndi_sender o1)
                                 (video_frame\<lparr>p_data := conv_buffer o1,
                                    line_stride_in_bytes := conv_linesize o1\<rparr>)])))
           else Some (o', [Send_send_video_async_v2 (ndi_sender o')
                  (video_frame\<lparr>p_data := Some (v_data frame 0),
                     line_stride_in_bytes := v_linesize frame 0\<rparr>)]))"

subsection \<open>ndi_output_rawaudio\<close>

text \<open>
  \<^verbatim>\<open>memcpy(dst + off, src, n)\<close> on the memory behind \<open>dst\<close>: the \<open>n\<close> bytes from offset
  \<open>off\<close> on become those of \<open>src\<close>. Through a null \<open>dst\<close> the model copies nothing and
  goes on, where the code faults unless \<open>n = 0\<close>. An instance reached from create has a
  null audio buffer only with the recorded size 0 (\<open>scratch_ok\<close> below), so that only a
  frame whose required size is 0 is copied through a null pointer.
\<close>

definition memcpy :: "mem option \<Rightarrow> int \<Rightarrow> mem \<Rightarrow> nat \<Rightarrow> mem option" where
  "memcpy dst off src n =
     map_option
       (\<lambda>d a. if off \<le> int a \<and> int a < off + int n then src (nat (int a - off)) else d a) dst"

text \<open>
  The loop \<^verbatim>\<open>for (int i = 0; i < audio_frame.no_channels; ++i)\<close>. \<open>i\<close>, the channel count
  and the stride are C ints: the comparison is signed, \<^verbatim>\<open>i * stride\<close> is a 32-bit
  product (read as signed for the pointer), and the stride becomes the \<^verbatim>\<open>size_t\<close>
  length of the copy by sign extension.
\<close>

function copy_channels :: "c_int \<Rightarrow> c_int \<Rightarrow> c_int \<Rightarrow> (nat \<Rightarrow> mem) \<Rightarrow> mem option \<Rightarrow> mem option" where
  "copy_channels i channels stride data buf =
     (if i <s channels
      then copy_channels (i + 1) channels stride data
             (memcpy buf (sint (i * stride)) (data (nat (sint i))) (unat (scast stride :: u64)))
      else buf)"
  by pat_completeness auto
termination
proof (relation "measure (\<lambda>(i, channels, stride, data, buf). nat (sint channels - sint i))")
  show "wf (measure (\<lambda>(i :: c_int, channels :: c_int, stride :: c_int, data :: nat \<Rightarrow> mem,
      buf :: mem option). nat (sint channels - sint i)))"
    by simp
next
  fix i channels stride :: c_int and data :: "nat \<Rightarrow> mem" and buf :: "mem option"
  assume "i <s channels"
  then have a: "sint i < sint channels" by (simp add: word_sless_alt)
  moreover have "sint channels < 2 ^ 31" using sint_less [of channels] by simp
  moreover have "- (2 ^ 31) \<le> sint i" using sint_greater_eq [of i] by simp
  ultimately have r: "- (2 ^ 31) \<le> sint i + 1" "sint i + 1 < 2 ^ 31" by simp_all
  have "sint (i + 1) = signed_take_bit 31 (sint i + 1)"
    by (simp add: sint_word_ariths)
  also have "\<dots> = sint i + 1" using r by (simp add: signed_take_bit_int_eq_self)
  finally have "sint (i + 1) = sint i + 1" .
  with a show "((i + 1, channels, stride, data,
        memcpy buf (sint (i * stride)) (data (nat (sint i))) (unat (scast stride :: u64))),
      (i, channels, stride, data, buf))
    \<in> measure (\<lambda>(i, channels, stride, data, buf). nat (sint channels - sint i))"
    by simp
qed

text \<open>
  \<^verbatim>\<open>data_size\<close>: the product of two ints (32 bits), converted to \<^verbatim>\<open>size_t\<close> by sign
  extension. \<^verbatim>\<open>frame->frames * 4\<close> is a 32-bit unsigned product and \<^verbatim>\<open>(int)o->audio_channels\<close>
  keeps the low 32 bits.
\<close>

definition audio_data_size :: "ndi_output \<Rightarrow> audio_data \<Rightarrow> u64" where
  "audio_data_size o' frame =
     scast ((ucast (audio_channels o') :: c_int) * (a_frames frame * 4))"

definition ndi_output_rawaudio :: "host \<Rightarrow> ndi_output \<Rightarrow> audio_data \<Rightarrow> ndi_output \<times> call list" where
  "ndi_output_rawaudio h o' frame =
     (if \<not> started o' \<or> audio_samplerate o' = 0 \<or> audio_channels o' = 0 then (o', [])
      else
        let audio_frame =
              \<lparr>sample_rate = audio_samplerate o',
               no_channels = ucast (audio_channels o'),
               no_samples = a_frames frame,
               a_timecode = NDIlib_send_timecode_synthesize,
               a_FourCC = NDIlib_FourCC_audio_type_FLTP,
               a_p_data = None,
               channel_stride_in_bytes = a_frames frame * 4\<rparr>;
            data_size = (scast (no_channels audio_frame * channel_stride_in_bytes audio_frame) :: u64);
            (o1, calls) =
              (if audio_conv_buffer_size o' < data_size
               then (o'\<lparr>audio_conv_buffer := Some (bmalloc h (unat data_size)),
                        audio_conv_buffer_size := data_size\<rparr>,
                     (if audio_conv_buffer o' \<noteq> None then [Bfree] else []) @ [Bmalloc data_size])
               else (o', []));
            o2 = o1\<lparr>audio_conv_buffer :=
                      copy_channels 0 (no_channels audio_frame)
                        (channel_stride_in_bytes audio_frame) (a_data frame) (audio_conv_buffer o1)\<rparr>
        in (o2, calls @ [Send_send_audio_v3 (ndi_sender o2)
                           (audio_frame\<lparr>a_p_data := audio_conv_buffer o2\<rparr>)]))"

subsection \<open>The life of an instance\<close>

text \<open>
  The callbacks the host may invoke on an instance between create and destroy, and
  the instance after a sequence of them (\<open>None\<close> when one of them does not return).
  Every start comes with the answers of the environment at that moment.
\<close>

datatype event =
    Update obs_data_t
  | Start host
  | Stop
  | Raw_video video_data
  | Raw_audio host audio_data

fun step :: "event \<Rightarrow> ndi_output \<Rightarrow> (ndi_output \<times> call list) option" where
  "step (Update settings) o' = Some (ndi_output_update o' settings, [])"
| "step (Start h) o' = (case ndi_output_start h o' of (ok, o1, calls) \<Rightarrow> Some (o1, calls))"
| "step Stop o' = Some (ndi_output_stop o')"
| "step (Raw_video frame) o' = ndi_output_rawvideo o' frame"
| "step (Raw_audio h frame) o' = Some (ndi_output_rawaudio h o' frame)"

fun run :: "event list \<Rightarrow> ndi_output \<Rightarrow> ndi_output option" where
  "run [] o' = Some o'"
| "run (e # es) o' = (case step e o' of None \<Rightarrow> None | Some (o1, calls) \<Rightarrow> run es o1)"

subsection \<open>Statements about the converter\<close>

definition plane_of :: "u8 list \<Rightarrow> mem" where
  "plane_of xs = (\<lambda>a. if a < length xs then xs ! a else 0)"

definition s1_input :: "nat \<Rightarrow> mem" where
  "s1_input p =
     (if p = 0 then plane_of [10, 20, 30, 40, 50, 60, 70, 80]
      else if p = 1 then plane_of [1, 2, 3, 4, 5, 6, 7, 8]
      else plane_of [100, 101, 102, 103, 104, 105, 106, 107])"

definition row_accesses :: "(nat \<Rightarrow> mem) \<Rightarrow> (nat \<Rightarrow> u32) \<Rightarrow> u32 \<Rightarrow> u32 \<Rightarrow> nat \<Rightarrow> access list" where
  "row_accesses input in_linesize width out_linesize y =
     concat (map (\<lambda>i. pair_accesses input
                         (y * unat (in_linesize 0) + 2 * i)
                         (y * unat (in_linesize 1) + 2 * i)
                         (y * unat (in_linesize 2) + 2 * i)
                         (y * unat out_linesize + 4 * i))
                 [0..<(unat width + 1) div 2])"

definition uyvy_pair :: "(nat \<Rightarrow> mem) \<Rightarrow> (nat \<Rightarrow> u32) \<Rightarrow> u32 \<Rightarrow> nat \<Rightarrow> nat \<Rightarrow> (nat \<times> u8) list" where
  "uyvy_pair input in_linesize out_linesize y x =
     [(y * unat out_linesize + 2 * x,     input 1 (y * unat (in_linesize 1) + x)),
      (y * unat out_linesize + 2 * x + 1, input 0 (y * unat (in_linesize 0) + x)),
      (y * unat out_linesize + 2 * x + 2, input 2 (y * unat (in_linesize 2) + x)),
      (y * unat out_linesize + 2 * x + 3, input 0 (y * unat (in_linesize 0) + x + 1))]"

definition width_clip_claim :: "(nat \<Rightarrow> mem) \<Rightarrow> (nat \<Rightarrow> u32) \<Rightarrow> u32 \<Rightarrow> u32 \<Rightarrow> u32 \<Rightarrow> bool" where
  "width_clip_claim input in_linesize start_y end_y out_linesize =
     (case convert_i444_to_uyvy input in_linesize start_y end_y out_linesize of
        None \<Rightarrow> False
      | Some accesses \<Rightarrow>
          length (stores accesses) =
            (unat end_y - unat start_y) * (2 * (unat (min_uint32 (in_linesize 0) out_linesize) div 2)) \<and>
          list_all (\<lambda>(a, v). a < unat out_linesize * unat end_y) (stores accesses))"

definition odd_width_claim :: "(nat \<Rightarrow> mem) \<Rightarrow> (nat \<Rightarrow> u32) \<Rightarrow> u32 \<Rightarrow> u32 \<Rightarrow> u32 \<Rightarrow> bool" where
  "odd_width_claim input in_linesize start_y end_y out_linesize =
     (let w = unat (min_uint32 (in_linesize 0) out_linesize) in
      if odd w
      then (case convert_i444_to_uyvy input in_linesize start_y end_y out_linesize of
              None \<Rightarrow> False
            | Some accesses \<Rightarrow>
                length (stores accesses) = (unat end_y - unat start_y) * (4 * (w div 2)) \<and>
                list_all (\<lambda>a. a < (unat end_y - 1) * unat (in_linesize 0) + w) (loads 0 accesses))
      else True)"

subsection \<open>Instances and environments of the scenarios\<close>

text \<open>
  The settings \<^verbatim>\<open>ndi_output_getdefaults\<close> installs, settings with a given name and
  flags, an environment that offers the given media handles and in which the sender
  is created and the capture begins, a video handle 4 wide and 2 high, a stereo audio
  handle, and the instance right after create and start.
\<close>

definition ndi_output_getdefaults :: obs_data_t where
  "ndi_output_getdefaults =
     \<lparr>obs_data_get_string = (\<lambda>k. if k = ''ndi_name'' then ''obs-ndi output (changeme)'' else []),
      obs_data_get_bool = (\<lambda>k. k = ''uses_video'' \<or> k = ''uses_audio'')\<rparr>"

definition settings_of :: "string \<Rightarrow> bool \<Rightarrow> bool \<Rightarrow> obs_data_t" where
  "settings_of name v a =
     \<lparr>obs_data_get_string = (\<lambda>k. if k = ''ndi_name'' then name else []),
      obs_data_get_bool = (\<lambda>k. (k = ''uses_video'' \<and> v) \<or> (k = ''uses_audio'' \<and> a))\<rparr>"

definition host_of :: "video_t option \<Rightarrow> audio_t option \<Rightarrow> host" where
  "host_of video audio =
     \<lparr>obs_output_video = video, obs_output_audio = audio,
      send_create = (\<lambda>d. Some 1), obs_output_begin_data_capture = (\<lambda>flags. True),
      bmalloc = (\<lambda>n a. 0)\<rparr>"

definition video_4x2 :: "video_format \<Rightarrow> double \<Rightarrow> video_t" where
  "video_4x2 format rate = \<lparr>vo_format = format, vo_width = 4, vo_height = 2, vo_frame_rate = rate\<rparr>"

definition audio_stereo :: audio_t where
  "audio_stereo = \<lparr>ao_sample_rate = 48000, ao_channels = 2\<rparr>"

definition started_with :: "host \<Rightarrow> obs_data_t \<Rightarrow> ndi_output" where
  "started_with h settings = fst (snd (ndi_output_start h (ndi_output_create settings 0)))"

subsection \<open>Statements about the instance\<close>

fun is_send_create :: "call \<Rightarrow> bool" where
  "is_send_create (Send_create d) = True"
| "is_send_create c = False"

definition start_rejects_claim :: "host \<Rightarrow> ndi_output \<Rightarrow> bool" where
  "start_rejects_claim h o' =
     (if (\<not> uses_video o' \<or> obs_output_video h = None) \<and>
         (\<not> uses_audio o' \<or> obs_output_audio h = None)
      then (case ndi_output_start h o' of
              (ok, o1, calls) \<Rightarrow> \<not> ok \<and> \<not> list_ex is_send_create calls)
      else True)"

definition stop_claim :: "ndi_output \<Rightarrow> bool" where
  "stop_claim o' =
     (if started o'
      then (case ndi_output_stop o' of
              (o1, calls) \<Rightarrow>
                ndi_sender o1 = None \<and> conv_buffer o1 = None \<and>
                frame_width o1 = 0 \<and> frame_height o1 = 0 \<and> frame_fourcc o1 = FourCC_zero \<and>
                dval (video_framerate o1) = 0 \<and> conv_function o1 = None \<and> conv_linesize o1 = 0 \<and>
                audio_channels o1 = 0 \<and> audio_samplerate o1 = 0 \<and>
                audio_conv_buffer o1 = audio_conv_buffer o' \<and>
                audio_conv_buffer_size o1 = audio_conv_buffer_size o')
      else True)"

subsection \<open>Statements about the audio path\<close>

text \<open>
  \<open>repacked data first channels stride buf\<close>: the buffer \<open>buf\<close> once the channels from
  \<open>first\<close> up to \<open>channels - 1\<close> have been copied, channel \<open>i\<close> to the \<open>stride\<close> bytes
  from offset \<open>i * stride\<close> on. \<open>sent_audio\<close>: the audio frames handed to the vendor by
  a list of calls. \<open>scratch_ok\<close>: a null audio buffer has the recorded size 0.
  \<open>audio_sizes evs o\<close>: for the audio frames that a run of \<open>evs\<close> from \<open>o\<close> processes (those
  delivered while started with a non-zero sample rate and channel count), in order,
  the number \<open>channels * 4 * frames\<close> of each, as a natural number.
\<close>

definition repacked :: "(nat \<Rightarrow> mem) \<Rightarrow> nat \<Rightarrow> nat \<Rightarrow> nat \<Rightarrow> mem \<Rightarrow> mem" where
  "repacked data first channels stride buf =
     (\<lambda>a. if first * stride \<le> a \<and> a < channels * stride then data (a div stride) (a mod stride)
          else buf a)"

fun sent_audio :: "call list \<Rightarrow> NDIlib_audio_frame_v3_t list" where
  "sent_audio [] = []"
| "sent_audio (Send_send_audio_v3 sender frame # cs) = frame # sent_audio cs"
| "sent_audio (c # cs) = sent_audio cs"

definition repack_claim :: "host \<Rightarrow> ndi_output \<Rightarrow> audio_data \<Rightarrow> bool" where
  "repack_claim h o' frame =
     (if started o' \<and> audio_samplerate o' \<noteq> 0 \<and> audio_channels o' \<noteq> 0
      then (case ndi_output_rawaudio h o' frame of
              (o2, calls) \<Rightarrow>
                (\<forall>i < unat (audio_channels o'). \<forall>k < 4 * unat (a_frames frame).
                   (case audio_conv_buffer o2 of
                      None \<Rightarrow> False
                    | Some buf \<Rightarrow> buf (i * (4 * unat (a_frames frame)) + k) = a_data frame i k)))
      else True)"

definition scratch_ok :: "ndi_output \<Rightarrow> bool" where
  "scratch_ok o' = (audio_conv_buffer o' = None \<longrightarrow> audio_conv_buffer_size o' = 0)"

definition audio_running :: ndi_output where
  "audio_running = started_with (host_of None (Some audio_stereo)) ndi_output_getdefaults"

definition audio_frame_of :: "nat \<Rightarrow> audio_data" where
  "audio_frame_of n = \<lparr>a_data = (\<lambda>i a. of_nat (16 * i + a)), a_frames = of_nat n\<rparr>"

fun is_alloc :: "call \<Rightarrow> bool" where
  "is_alloc (Bmalloc n) = True"
| "is_alloc Bfree = True"
| "is_alloc c = False"

fun audio_sizes :: "event list \<Rightarrow> ndi_output \<Rightarrow> nat list" where
  "audio_sizes [] o' = []"
| "audio_sizes (e # es) o' =
     (case e of
        Raw_audio h frame \<Rightarrow>
          if started o' \<and> audio_samplerate o' \<noteq> 0 \<and> audio_channels o' \<noteq> 0
          then [unat (audio_channels o') * 4 * unat (a_frames frame)] else []
      | _ \<Rightarrow> []) @
     (case step e o' of None \<Rightarrow> [] | Some (o1, calls) \<Rightarrow> audio_sizes es o1)"

text \<open>
  \<open>scratch_claim\<close> is the sentence of the specification: after a sequence of callbacks
  the capacity of the audio buffer is the maximum of \<open>channels * 4 * frames\<close> over the
  frames processed (0 if there is none).
\<close>

definition scratch_claim :: "event list \<Rightarrow> ndi_output \<Rightarrow> bool" where
  "scratch_claim evs o' =
     (case run evs o' of
        None \<Rightarrow> True
      | Some o1 \<Rightarrow> unat (audio_conv_buffer_size o1) = Max (set (0 # audio_sizes evs o')))"

text \<open>\<open>conv_ok\<close>: an instance without a conversion buffer has no conversion function.\<close>

definition conv_ok :: "ndi_output \<Rightarrow> bool" where
  "conv_ok o' = (conv_buffer o' = None \<longrightarrow> conv_function o' = None)"

text \<open>Scenario S4: an audio-only environment with a stereo handle, and the callbacks up
  to the second of its three frames.\<close>

definition s4_host :: host where
  "s4_host = host_of None (Some audio_stereo)"

definition s4_start :: "event list" where
  "s4_start = [Start s4_host, Raw_audio s4_host (audio_frame_of 1024),
               Raw_audio s4_host (audio_frame_of 512)]"

text \<open>
  Scenario for the frame rate: the video descriptors handed to the vendor library, in
  order; the doubles nearest to 29.97 and to 24000/1001 (\<open>m * 2 ^ - 48\<close> with a 53-bit
  \<open>m\<close>); and a running instance whose host reports a 4x2 NV12 video at a given rate.
  \<open>frame_rate_claim\<close> is the sentence of the specification: every descriptor sent for
  a frame delivered to a running instance has the numerator
  \<open>round (framerate * 100)\<close> and the denominator 100.
\<close>

fun sent_video :: "call list \<Rightarrow> NDIlib_video_frame_v2_t list" where
  "sent_video [] = []"
| "sent_video (Send_send_video_async_v2 sender frame # cs) = frame # sent_video cs"
| "sent_video (c # cs) = sent_video cs"

definition rate_29_97 :: double where
  "rate_29_97 = Double 8435805052018360 (- 48)"

definition rate_24000_1001 :: double where
  "rate_24000_1001 = Double 6748650790265479 (- 48)"

definition video_running :: "double \<Rightarrow> ndi_output" where
  "video_running rate =
     started_with (host_of (Some (video_4x2 VIDEO_FORMAT_NV12 rate)) None) ndi_output_getdefaults"

definition frame_rate_claim :: "ndi_output \<Rightarrow> video_data \<Rightarrow> bool" where
  "frame_rate_claim o' frame =
     (if started o' \<and> frame_width o' \<noteq> 0 \<and> frame_height o' \<noteq> 0
      then (case ndi_output_rawvideo o' frame of
              None \<Rightarrow> True
            | Some (o1, calls) \<Rightarrow>
                list_all (\<lambda>vf. frame_rate_N vf = round (dval (video_framerate o') * 100) \<and>
                               frame_rate_D vf = 100)
                  (sent_video calls))
      else True)"

section \<open>Properties\<close>

subsection \<open>The converter\<close>

lemma unat_plus2:
  fixes x w :: u32
  assumes "unat x < unat w" and "w \<noteq> - 1"
  shows "unat (x + 2) = unat x + 2"
proof -
  have "unat w < 2 ^ 32" using unsigned_less [of w] by simp
  moreover have "unat w \<noteq> 2 ^ 32 - 1"
  proof
    assume "unat w = 2 ^ 32 - 1"
    then have "unat w = unat (- 1 :: u32)"
      by (simp add: unsigned_minus_1_eq_mask mask_eq_exp_minus_1)
    then have "w = - 1" by (simp only: word_unat_eq_iff)
    with assms(2) show False by simp
  qed
  ultimately have "unat x + 2 < 2 ^ 32" using assms(1) by simp
  then have "unat x + unat (2::u32) < 2 ^ LENGTH(32)" by simp
  then have "unat (x + 2) = unat x + unat (2::u32)" by (simp only: unat_add_lem)
  then show ?thesis by simp
qed

lemma conv_pairs_run:
  assumes "w \<noteq> - 1" and "unat x \<le> unat w + 1"
  shows "conv_pairs input w x Yp Up Vp outp acc =
     Some (acc @ concat (map (\<lambda>i. pair_accesses input (Yp + 2 * i) (Up + 2 * i) (Vp + 2 * i) (outp + 4 * i))
                         [0..<(unat w + 1 - unat x) div 2]))"
  using assms
proof (induction "(unat w + 1 - unat x) div 2" arbitrary: x Yp Up Vp outp acc)
  case 0
  then have "\<not> x < w" by (auto simp: word_less_nat_alt)
  with 0 show ?case by (subst conv_pairs.simps) simp
next
  case (Suc n)
  then have lt: "x < w" and ult: "unat x < unat w"
    by (auto simp: word_less_nat_alt)
  have u2: "unat (x + 2) = unat x + 2" using ult Suc.prems(1) by (rule unat_plus2)
  have n: "n = (unat w + 1 - unat (x + 2)) div 2" using Suc.hyps(2) u2 by simp
  have le: "unat (x + 2) \<le> unat w + 1" using u2 ult by simp
  have cnt: "(unat w + 1 - unat x) div 2 = Suc n" using Suc.hyps(2) by simp
  have shift: "map (\<lambda>i. pair_accesses input (Yp + 2 * i) (Up + 2 * i) (Vp + 2 * i) (outp + 4 * i)) [0..<Suc n]
     = pair_accesses input Yp Up Vp outp #
       map (\<lambda>i. pair_accesses input (Yp + 2 + 2 * i) (Up + 2 + 2 * i) (Vp + 2 + 2 * i) (outp + 4 + 4 * i)) [0..<n]"
    by (simp only: upt_conv_Cons [of 0 "Suc n"] map_Suc_upt [symmetric]) (simp add: comp_def add.assoc)
  show ?case
    apply (subst conv_pairs.simps)
    apply (simp only: lt if_True Suc.hyps(1) [OF n Suc.prems(1) le] cnt shift n [symmetric])
    apply simp
    done
qed

lemma conv_row_run:
  assumes "w \<noteq> - 1"
  shows "conv_pairs input w 0 (y * unat (ls 0)) (y * unat (ls 1)) (y * unat (ls 2)) (y * unat os) acc =
     Some (acc @ row_accesses input ls w os y)"
  using conv_pairs_run [OF assms, of 0] by (simp add: row_accesses_def)

lemma conv_rows_run:
  assumes "w \<noteq> - 1"
  shows "conv_rows input ls w y e os acc =
     Some (acc @ concat (map (row_accesses input ls w os) [unat y..<unat e]))"
  using assms
proof (induction input ls w y e os acc rule: conv_rows.induct)
  case (1 input ls w y e os acc)
  note w = \<open>w \<noteq> - 1\<close>
  show ?case
  proof (cases "y < e")
    case False
    then have "unat e \<le> unat y" by (simp add: word_less_nat_alt)
    with False show ?thesis by (subst conv_rows.simps) simp
  next
    case True
    then have a: "unat y < unat e" by (simp add: word_less_nat_alt)
    have "unat e < 2 ^ 32" using unsigned_less [of e] by simp
    with a have "unat y + unat (1 :: u32) < 2 ^ LENGTH(32)" by simp
    then have "unat (y + 1) = unat y + unat (1 :: u32)" by (simp only: unat_add_lem)
    then have s: "unat (y + 1) = Suc (unat y)" by simp
    have row: "conv_pairs input w 0 (unat y * unat (ls 0)) (unat y * unat (ls 1))
        (unat y * unat (ls 2)) (unat y * unat os) acc = Some (acc @ row_accesses input ls w os (unat y))"
      using w by (rule conv_row_run)
    have ih: "conv_rows input ls w (y + 1) e os (acc @ row_accesses input ls w os (unat y)) =
        Some ((acc @ row_accesses input ls w os (unat y)) @
              concat (map (row_accesses input ls w os) [unat (y + 1)..<unat e]))"
      using "1.IH" [OF True row w] by simp
    show ?thesis
      apply (subst conv_rows.simps)
      apply (simp only: True if_True row option.case ih s)
      apply (simp add: upt_conv_Cons [OF a])
      done
  qed
qed

lemma convert_accesses:
  assumes "min_uint32 (ls 0) os \<noteq> - 1"
  shows "convert_i444_to_uyvy input ls s e os =
     Some (concat (map (row_accesses input ls (min_uint32 (ls 0) os) os) [unat s..<unat e]))"
  using conv_rows_run [OF assms, of input ls s e os "[]"]
  by (simp add: convert_i444_to_uyvy_def)

lemma stores_append: "stores (xs @ ys) = stores xs @ stores ys"
  by (induction xs rule: stores.induct) simp_all

lemma stores_concat: "stores (concat xss) = concat (map stores xss)"
  by (induction xss) (simp_all add: stores_append)

lemma loads_append: "loads p (xs @ ys) = loads p xs @ loads p ys"
  by (induction p xs rule: loads.induct) simp_all

lemma loads_concat: "loads p (concat xss) = concat (map (loads p) xss)"
  by (induction xss) (simp_all add: loads_append)

lemma stores_row:
  "stores (row_accesses input ls w os y) =
     concat (map (\<lambda>p. uyvy_pair input ls os y (2 * p)) [0..<(unat w + 1) div 2])"
  by (simp add: row_accesses_def stores_concat comp_def pair_accesses_def uyvy_pair_def add.assoc)

lemma four_upt: "[b..<b + 4] = [b, b + 1, b + 2, b + 3]"
  by (simp add: upt_rec [of b] upt_rec [of "Suc b"] upt_rec [of "Suc (Suc b)"] upt_rec [of "Suc (Suc (Suc b))"])

lemma two_upt: "[b..<b + 2] = [b, b + 1]"
  by (simp add: upt_rec [of b] upt_rec [of "Suc b"])

lemma store_offsets_pairs:
  "concat (map (\<lambda>p. map fst (uyvy_pair input ls os y (2 * p))) [0..<n]) =
     [y * unat os..<y * unat os + 4 * n]"
proof (induction n)
  case 0
  show ?case by simp
next
  case (Suc n)
  have "[y * unat os..<y * unat os + 4 * Suc n] =
        [y * unat os..<y * unat os + 4 * n] @ [y * unat os + 4 * n..<y * unat os + 4 * n + 4]"
    using upt_add_eq_append [of "y * unat os" "y * unat os + 4 * n" 4] by (simp add: ac_simps)
  also have "[y * unat os + 4 * n..<y * unat os + 4 * n + 4] =
        map fst (uyvy_pair input ls os y (2 * n))"
    by (simp only: four_upt) (simp add: uyvy_pair_def)
  finally show ?case using Suc.IH by simp
qed

lemma store_offsets_row:
  "map fst (stores (row_accesses input ls w os y)) =
     [y * unat os..<y * unat os + 4 * ((unat w + 1) div 2)]"
  by (simp only: stores_row map_concat map_map comp_def store_offsets_pairs)

lemma loads0_pairs:
  "concat (map (\<lambda>i. loads 0 (pair_accesses input (b + 2 * i) (u + 2 * i) (v + 2 * i) (out + 4 * i))) [0..<n]) =
     [b..<b + 2 * n]"
proof (induction n)
  case 0
  show ?case by simp
next
  case (Suc n)
  have "[b..<b + 2 * Suc n] = [b..<b + 2 * n] @ [b + 2 * n..<b + 2 * n + 2]"
    using upt_add_eq_append [of b "b + 2 * n" 2] by (simp add: ac_simps)
  also have "[b + 2 * n..<b + 2 * n + 2] =
        loads 0 (pair_accesses input (b + 2 * n) (u + 2 * n) (v + 2 * n) (out + 4 * n))"
    by (simp only: two_upt) (simp add: pair_accesses_def)
  finally show ?case using Suc.IH by simp
qed

lemma loads0_row:
  "loads 0 (row_accesses input ls w os y) =
     [y * unat (ls 0)..<y * unat (ls 0) + 2 * ((unat w + 1) div 2)]"
  by (simp only: row_accesses_def loads_concat map_map comp_def loads0_pairs)

lemmas conv_eval = convert_i444_to_uyvy_def min_uint32_def conv_pairs.simps pair_accesses_def
  s1_input_def plane_of_def

lemma concat_map_split:
  "i \<in> set xs \<Longrightarrow> \<exists>pre post. concat (map f xs) = pre @ f i @ post"
proof -
  assume "i \<in> set xs"
  then obtain ys zs where "xs = ys @ i # zs" by (auto dest: split_list)
  then have "concat (map f xs) = concat (map f ys) @ f i @ concat (map f zs)" by simp
  then show ?thesis by blast
qed

text \<open>
  \<^bold>\<open>C2\<close> (UYVY byte order). Whenever the call returns (its effective width is not
  \<^verbatim>\<open>0xFFFFFFFF\<close>), the stores of the converter are, row after row for \<open>y\<close> from
  \<^verbatim>\<open>start_y\<close> to \<^verbatim>\<open>end_y - 1\<close> and pair after pair for even \<open>x\<close> below the effective width,
  the four bytes \<open>U[y][x], Y[y][x], V[y][x], Y[y][x+1]\<close> at the output offsets
  \<open>y * out_linesize + 2 * x\<close> and the three after it: the chroma sample of the even
  index is kept, that of the odd index is never stored, and nothing is averaged. In
  particular the four stores of every full pair \<open>(x, x+1)\<close> of every row stand
  together in that order. On the input of scenario S1 (three planes of stride 4, the
  output stride \<open>8 = 2 * 4\<close> that start computes for a frame 4 wide) the converter
  fills a zeroed output with the rows \<open>[1,10,100,20, 3,30,102,40]\<close> and
  \<open>[5,50,104,60, 7,70,106,80]\<close>.
\<close>

theorem uyvy_byte_order:
  assumes "min_uint32 (in_linesize 0) out_linesize \<noteq> - 1"
  shows "(\<exists>accesses.
            convert_i444_to_uyvy input in_linesize start_y end_y out_linesize = Some accesses \<and>
            stores accesses =
              concat (map (\<lambda>y. concat (map (\<lambda>p. uyvy_pair input in_linesize out_linesize y (2 * p))
                                       [0..<(unat (min_uint32 (in_linesize 0) out_linesize) + 1) div 2]))
                          [unat start_y..<unat end_y]) \<and>
            (\<forall>y x. unat start_y \<le> y \<and> y < unat end_y \<and> even x \<and>
                   x + 1 < unat (min_uint32 (in_linesize 0) out_linesize) \<longrightarrow>
               (\<exists>before after.
                  stores accesses = before @ uyvy_pair input in_linesize out_linesize y x @ after))) \<and>
         map_option (\<lambda>accesses. map (write_back accesses (\<lambda>a. 0)) [0..<16])
             (convert_i444_to_uyvy s1_input (\<lambda>p. 4) 0 2 8) =
           Some [1, 10, 100, 20, 3, 30, 102, 40, 5, 50, 104, 60, 7, 70, 106, 80]"
proof -
  let ?w = "min_uint32 (in_linesize 0) out_linesize"
  let ?n = "(unat ?w + 1) div 2"
  let ?row = "\<lambda>y. concat (map (\<lambda>p. uyvy_pair input in_linesize out_linesize y (2 * p)) [0..<?n])"
  let ?acc = "concat (map (row_accesses input in_linesize ?w out_linesize) [unat start_y..<unat end_y])"
  have conv: "convert_i444_to_uyvy input in_linesize start_y end_y out_linesize = Some ?acc"
    using assms by (rule convert_accesses)
  have st: "stores ?acc = concat (map ?row [unat start_y..<unat end_y])"
    by (simp add: stores_concat comp_def stores_row)
  have pairs: "\<exists>before after. stores ?acc = before @ uyvy_pair input in_linesize out_linesize y x @ after"
    if "unat start_y \<le> y" "y < unat end_y" "even x" "x + 1 < unat ?w" for y x
  proof -
    from that(3) obtain p where x: "x = 2 * p" by (auto elim: evenE)
    with that(4) have "p \<in> set [0..<?n]" by auto
    then obtain b1 a1 where r: "?row y = b1 @ uyvy_pair input in_linesize out_linesize y (2 * p) @ a1"
      using concat_map_split [of p "[0..<?n]" "\<lambda>p. uyvy_pair input in_linesize out_linesize y (2 * p)"]
      by blast
    from that(1,2) have "y \<in> set [unat start_y..<unat end_y]" by simp
    then obtain b2 a2 where "concat (map ?row [unat start_y..<unat end_y]) = b2 @ ?row y @ a2"
      using concat_map_split [of y "[unat start_y..<unat end_y]" ?row] by blast
    with r st x have "stores ?acc = (b2 @ b1) @ uyvy_pair input in_linesize out_linesize y x @ (a1 @ a2)"
      by simp
    then show ?thesis by blast
  qed
  have s1: "map_option (\<lambda>accesses. map (write_back accesses (\<lambda>a. 0)) [0..<16])
             (convert_i444_to_uyvy s1_input (\<lambda>p. 4) 0 2 8) =
           Some [1, 10, 100, 20, 3, 30, 102, 40, 5, 50, 104, 60, 7, 70, 106, 80]"
    by (simp add: conv_eval upt_rec)
  from conv st pairs s1 show ?thesis by blast
qed

theorem uyvy_byte_order_witness:
  "min_uint32 4 8 \<noteq> - 1 \<and>
   (\<exists>accesses. convert_i444_to_uyvy s1_input (\<lambda>p. 4) 0 2 8 = Some accesses \<and>
      stores accesses =
        [(0, 1), (1, 10), (2, 100), (3, 20), (4, 3), (5, 30), (6, 102), (7, 40),
         (8, 5), (9, 50), (10, 104), (11, 60), (12, 7), (13, 70), (14, 106), (15, 80)])"
proof -
  have h: "min_uint32 ((\<lambda>p. 4) 0) 8 \<noteq> - 1" by (simp add: min_uint32_def)
  have "\<exists>accesses. convert_i444_to_uyvy s1_input (\<lambda>p. 4) 0 2 8 = Some accesses \<and>
      stores accesses =
        concat (map (\<lambda>y. concat (map (\<lambda>p. uyvy_pair s1_input (\<lambda>p. 4) 8 y (2 * p))
             [0..<(unat (min_uint32 ((\<lambda>p. 4) 0) 8) + 1) div 2])) [unat (0::u32)..<unat (2::u32)])"
    using uyvy_byte_order [OF h, of s1_input 0 2] by blast
  then show ?thesis
    by (simp add: min_uint32_def uyvy_pair_def s1_input_def plane_of_def upt_rec
        numeral_2_eq_2 [symmetric])
qed

lemma store_offsets_call:
  "map fst (stores (concat (map (row_accesses input ls w os) ys))) =
     concat (map (\<lambda>y. [y * unat os..<y * unat os + 4 * ((unat w + 1) div 2)]) ys)"
  by (simp add: stores_concat map_concat comp_def store_offsets_row)

lemma loads0_call:
  "loads 0 (concat (map (row_accesses input ls w os) ys)) =
     concat (map (\<lambda>y. [y * unat (ls 0)..<y * unat (ls 0) + 2 * ((unat w + 1) div 2)]) ys)"
  by (simp add: loads_concat comp_def loads0_row)

lemma length_stores_call:
  "length (stores (concat (map (row_accesses input ls w os) ys))) =
     length ys * (4 * ((unat w + 1) div 2))"
proof -
  have "length (stores (concat (map (row_accesses input ls w os) ys))) =
        length (map fst (stores (concat (map (row_accesses input ls w os) ys))))"
    by simp
  also have "\<dots> = length ys * (4 * ((unat w + 1) div 2))"
    by (simp only: store_offsets_call) (induction ys, simp_all)
  finally show ?thesis .
qed

text \<open>
  \<^bold>\<open>C1\<close> as stated fails. With the planes of S1, all three input strides 4 and an
  output stride of 4, rows 0 and 1: the effective width is \<open>min 4 4 = 4\<close>, yet the
  converter stores 8 bytes in each row (offsets 0 to 7, then 4 to 11), not 4, and
  the offsets 8 to 11 lie at or beyond \<open>out_linesize * end_y = 8\<close>.
\<close>

theorem width_clip_counterexample:
  "\<not> width_clip_claim s1_input (\<lambda>p. 4) 0 2 4 \<and>
   map_option (\<lambda>accesses. map fst (stores accesses)) (convert_i444_to_uyvy s1_input (\<lambda>p. 4) 0 2 4) =
     Some [0, 1, 2, 3, 4, 5, 6, 7, 4, 5, 6, 7, 8, 9, 10, 11]"
  by (simp add: width_clip_claim_def conv_eval)

text \<open>
  \<^bold>\<open>C1\<close>, amended. For every call whose effective width
  \<open>w = min (in_linesize[0]) out_linesize\<close> is not \<^verbatim>\<open>0xFFFFFFFF\<close>, the converter returns and
  stores, for each row \<open>y\<close> of \<open>[start_y, end_y)\<close> in turn, exactly the
  \<open>4 * ((w + 1) div 2)\<close> bytes at the output offsets from \<open>y * out_linesize\<close> on, each
  once and in ascending order (two bytes for every luma sample, the width rounded up to
  an even number of samples), and no other byte. When those \<open>4 * ((w + 1) div 2)\<close>
  bytes fit the output stride, no byte is stored at an offset at or beyond
  \<open>out_linesize * end_y\<close>.
\<close>

theorem width_clip_amended:
  assumes "min_uint32 (in_linesize 0) out_linesize \<noteq> - 1"
  shows "\<exists>accesses.
           convert_i444_to_uyvy input in_linesize start_y end_y out_linesize = Some accesses \<and>
           map fst (stores accesses) =
             concat (map (\<lambda>y. [y * unat out_linesize..<
                                 y * unat out_linesize +
                                   4 * ((unat (min_uint32 (in_linesize 0) out_linesize) + 1) div 2)])
                         [unat start_y..<unat end_y]) \<and>
           (4 * ((unat (min_uint32 (in_linesize 0) out_linesize) + 1) div 2) \<le> unat out_linesize \<longrightarrow>
              (\<forall>a \<in> set (map fst (stores accesses)). a < unat out_linesize * unat end_y))"
proof -
  let ?w = "min_uint32 (in_linesize 0) out_linesize"
  let ?n = "4 * ((unat ?w + 1) div 2)"
  let ?os = "unat out_linesize"
  let ?acc = "concat (map (row_accesses input in_linesize ?w out_linesize) [unat start_y..<unat end_y])"
  have conv: "convert_i444_to_uyvy input in_linesize start_y end_y out_linesize = Some ?acc"
    using assms by (rule convert_accesses)
  have offs: "map fst (stores ?acc) =
      concat (map (\<lambda>y. [y * ?os..<y * ?os + ?n]) [unat start_y..<unat end_y])"
    by (rule store_offsets_call)
  have bound: "a < ?os * unat end_y" if le: "?n \<le> ?os" and a: "a \<in> set (map fst (stores ?acc))" for a
  proof -
    from a obtain y where y: "unat start_y \<le> y" "y < unat end_y" and ay: "a < y * ?os + ?n"
      unfolding offs by auto
    from ay le have "a < y * ?os + ?os" by simp
    also have "\<dots> = Suc y * ?os" by simp
    also have "\<dots> \<le> unat end_y * ?os" using y(2) by (intro mult_le_mono1) simp
    finally show ?thesis by (simp add: mult.commute)
  qed
  from conv offs bound show ?thesis by blast
qed

theorem width_clip_amended_witness:
  "min_uint32 4 8 \<noteq> - 1 \<and> 4 * ((unat (min_uint32 4 8) + 1) div 2) \<le> unat (8 :: u32) \<and>
   (\<exists>accesses. convert_i444_to_uyvy s1_input (\<lambda>p. 4) 0 2 8 = Some accesses \<and>
      map fst (stores accesses) = [0, 1, 2, 3, 4, 5, 6, 7, 8, 9, 10, 11, 12, 13, 14, 15] \<and>
      list_all (\<lambda>a. a < 16) (map fst (stores accesses)))"
proof -
  have h: "min_uint32 ((\<lambda>p. 4) 0) 8 \<noteq> - 1" by (simp add: min_uint32_def)
  have le: "4 * ((unat (min_uint32 4 8) + 1) div 2) \<le> unat (8 :: u32)" by (simp add: min_uint32_def)
  obtain accesses where
    c: "convert_i444_to_uyvy s1_input (\<lambda>p. 4) 0 2 8 = Some accesses" and
    o: "map fst (stores accesses) =
         concat (map (\<lambda>y. [y * unat (8 :: u32)..<y * unat (8 :: u32) +
             4 * ((unat (min_uint32 ((\<lambda>p. 4) 0) 8) + 1) div 2)]) [unat (0::u32)..<unat (2::u32)])" and
    b: "4 * ((unat (min_uint32 ((\<lambda>p. 4) 0) 8) + 1) div 2) \<le> unat (8 :: u32) \<longrightarrow>
          (\<forall>a \<in> set (map fst (stores accesses)). a < unat (8 :: u32) * unat (2 :: u32))"
    using width_clip_amended [OF h, of s1_input 0 2] by blast
  from b le have "\<forall>a \<in> set (map fst (stores accesses)). a < 16" by simp
  then have "list_all (\<lambda>a. a < 16) (map fst (stores accesses))" by (simp only: list_all_iff)
  moreover from o have "map fst (stores accesses) = [0, 1, 2, 3, 4, 5, 6, 7, 8, 9, 10, 11, 12, 13, 14, 15]"
    by (simp add: min_uint32_def upt_rec)
  ultimately show ?thesis using h le c by auto
qed

text \<open>
  \<^bold>\<open>C9\<close> as stated fails. With the planes of S1, input strides 3, output stride 6 and
  the single row 0, the effective width is 3: the converter stores two complete pairs
  (8 bytes, not the 4 of one pair), the second one made of the trailing pixel 2 and of
  the luma sample at index 3, which it reads although 3 is the effective width.
\<close>

theorem odd_width_counterexample:
  "\<not> odd_width_claim s1_input (\<lambda>p. 3) 0 1 6 \<and>
   map_option (\<lambda>accesses. (stores accesses, loads 0 accesses))
       (convert_i444_to_uyvy s1_input (\<lambda>p. 3) 0 1 6) =
     Some ([(0, 1), (1, 10), (2, 100), (3, 20), (4, 3), (5, 30), (6, 102), (7, 40)], [0, 1, 2, 3])"
  by (simp add: odd_width_claim_def conv_eval)

text \<open>
  \<^bold>\<open>C9\<close>, amended. For every call whose effective width \<open>w\<close> is odd and not
  \<^verbatim>\<open>0xFFFFFFFF\<close>, the converter returns and stores only complete pairs, \<open>(w + 1) div 2\<close>
  of them in each row, so never a partial pair: its stores are exactly, row after row,
  the four bytes of the pairs starting at the pixels \<open>0, 2, \<dots>, w - 1\<close>, which is
  \<open>4 * ((w + 1) div 2)\<close> bytes a row. The trailing pixel \<open>w - 1\<close> of every row is
  emitted, as the first luma sample of the last pair of the row, with the chroma
  samples of index \<open>w - 1\<close>; and no luma sample is read beyond index \<open>w\<close> of the last
  row.
\<close>

theorem odd_width_amended:
  assumes "odd (unat (min_uint32 (in_linesize 0) out_linesize))"
    and "min_uint32 (in_linesize 0) out_linesize \<noteq> - 1"
  shows "\<exists>accesses.
           convert_i444_to_uyvy input in_linesize start_y end_y out_linesize = Some accesses \<and>
           stores accesses =
             concat (map (\<lambda>y. concat (map (\<lambda>p. uyvy_pair input in_linesize out_linesize y (2 * p))
                                      [0..<(unat (min_uint32 (in_linesize 0) out_linesize) + 1) div 2]))
                         [unat start_y..<unat end_y]) \<and>
           length (stores accesses) =
             (unat end_y - unat start_y) *
               (4 * ((unat (min_uint32 (in_linesize 0) out_linesize) + 1) div 2)) \<and>
           (\<forall>y. unat start_y \<le> y \<and> y < unat end_y \<longrightarrow>
              (\<exists>before after. stores accesses =
                 before @
                 uyvy_pair input in_linesize out_linesize y
                   (unat (min_uint32 (in_linesize 0) out_linesize) - 1) @
                 after)) \<and>
           (\<forall>a \<in> set (loads 0 accesses).
              a \<le> (unat end_y - 1) * unat (in_linesize 0) +
                     unat (min_uint32 (in_linesize 0) out_linesize))"
proof -
  let ?w = "min_uint32 (in_linesize 0) out_linesize"
  let ?n = "(unat ?w + 1) div 2"
  let ?ls = "unat (in_linesize 0)"
  let ?row = "\<lambda>y. concat (map (\<lambda>p. uyvy_pair input in_linesize out_linesize y (2 * p)) [0..<?n])"
  let ?acc = "concat (map (row_accesses input in_linesize ?w out_linesize) [unat start_y..<unat end_y])"
  have conv: "convert_i444_to_uyvy input in_linesize start_y end_y out_linesize = Some ?acc"
    using assms(2) by (rule convert_accesses)
  have len: "length (stores ?acc) = (unat end_y - unat start_y) * (4 * ?n)"
    by (simp add: length_stores_call)
  from assms(1) obtain k where k: "unat ?w = 2 * k + 1" by (auto elim: oddE)
  then have n: "?n = k + 1" and w1: "unat ?w - 1 = 2 * k" by simp_all
  have st: "stores ?acc = concat (map ?row [unat start_y..<unat end_y])"
    by (simp add: stores_concat comp_def stores_row)
  have last: "\<exists>before after. stores ?acc =
      before @ uyvy_pair input in_linesize out_linesize y (unat ?w - 1) @ after"
    if "unat start_y \<le> y" "y < unat end_y" for y
  proof -
    have "k \<in> set [0..<?n]" using n by simp
    then obtain b1 a1 where r: "?row y = b1 @ uyvy_pair input in_linesize out_linesize y (2 * k) @ a1"
      using concat_map_split [of k "[0..<?n]" "\<lambda>p. uyvy_pair input in_linesize out_linesize y (2 * p)"]
      by blast
    from that have "y \<in> set [unat start_y..<unat end_y]" by simp
    then obtain b2 a2 where "concat (map ?row [unat start_y..<unat end_y]) = b2 @ ?row y @ a2"
      using concat_map_split [of y "[unat start_y..<unat end_y]" ?row] by blast
    with r st w1 have "stores ?acc =
        (b2 @ b1) @ uyvy_pair input in_linesize out_linesize y (unat ?w - 1) @ (a1 @ a2)"
      by simp
    then show ?thesis by blast
  qed
  have rd: "a \<le> (unat end_y - 1) * ?ls + unat ?w" if a: "a \<in> set (loads 0 ?acc)" for a
  proof -
    from a obtain y where y: "unat start_y \<le> y" "y < unat end_y" and ay: "a < y * ?ls + 2 * ?n"
      unfolding loads0_call by auto
    from y(2) have "y \<le> unat end_y - 1" by simp
    then have m: "y * ?ls \<le> (unat end_y - 1) * ?ls" by (rule mult_le_mono1)
    have e: "2 * ?n = unat ?w + 1" using k n by simp
    from ay e have "a < y * ?ls + unat ?w + 1" by (simp only: add.assoc)
    with m show ?thesis by linarith
  qed
  from conv st len last rd show ?thesis by blast
qed

theorem odd_width_amended_witness:
  "odd (unat (min_uint32 3 6)) \<and> min_uint32 3 6 \<noteq> - 1 \<and>
   (\<exists>accesses. convert_i444_to_uyvy s1_input (\<lambda>p. 3) 0 1 6 = Some accesses \<and>
      length (stores accesses) = 8 \<and>
      (\<exists>before after. stores accesses = before @ [(4, 3), (5, 30), (6, 102), (7, 40)] @ after))"
proof -
  have o: "odd (unat (min_uint32 ((\<lambda>p. 3) 0) 6))" by (simp add: min_uint32_def)
  have h: "min_uint32 ((\<lambda>p. 3) 0) 6 \<noteq> - 1" by (simp add: min_uint32_def)
  obtain accesses where
    c: "convert_i444_to_uyvy s1_input (\<lambda>p. 3) 0 1 6 = Some accesses" and
    l: "length (stores accesses) =
          (unat (1 :: u32) - unat (0 :: u32)) * (4 * ((unat (min_uint32 ((\<lambda>p. 3) 0) 6) + 1) div 2))" and
    t: "\<forall>y. unat (0 :: u32) \<le> y \<and> y < unat (1 :: u32) \<longrightarrow>
          (\<exists>before after. stores accesses =
             before @ uyvy_pair s1_input (\<lambda>p. 3) 6 y (unat (min_uint32 ((\<lambda>p. 3) 0) 6) - 1) @ after)"
    using odd_width_amended [OF o h, of s1_input 0 1] by blast
  from t have "\<exists>before after. stores accesses =
      before @ uyvy_pair s1_input (\<lambda>p. 3) 6 0 (unat (min_uint32 ((\<lambda>p. 3) 0) 6) - 1) @ after"
    by simp
  then have "\<exists>before after. stores accesses = before @ [(4, 3), (5, 30), (6, 102), (7, 40)] @ after"
    by (simp add: min_uint32_def uyvy_pair_def s1_input_def plane_of_def)
  moreover from l have "length (stores accesses) = 8" by (simp add: min_uint32_def)
  ultimately show ?thesis using o h c by auto
qed

subsection \<open>The instance: start, stop and the gates of the frame callbacks\<close>

lemmas start_eval = ndi_output_start_def start_video_block_def start_audio_block_def
  start_video_def start_sender_def ndi_output_create_def ndi_output_update_def
  bzalloc_ndi_output_def host_of_def settings_of_def ndi_output_getdefaults_def
  video_4x2_def audio_stereo_def started_with_def

text \<open>
  \<^bold>\<open>C3\<close> as stated fails. With both flags off and both media handles present, start
  passes its one guard (\<^verbatim>\<open>!video && !audio\<close>), skips both negotiation blocks, creates
  the sender and begins the capture with an empty flag mask: it returns \<^verbatim>\<open>true\<close>.
\<close>

theorem start_rejects_counterexample:
  "\<not> start_rejects_claim
       (host_of (Some (video_4x2 VIDEO_FORMAT_NV12 (Double 30 0))) (Some audio_stereo))
       (ndi_output_create (settings_of ''name'' False False) 0) \<and>
   (case ndi_output_start
           (host_of (Some (video_4x2 VIDEO_FORMAT_NV12 (Double 30 0))) (Some audio_stereo))
           (ndi_output_create (settings_of ''name'' False False) 0) of
      (ok, o1, calls) \<Rightarrow>
        ok \<and> ndi_sender o1 = Some 1 \<and>
        calls = [Send_create \<lparr>p_ndi_name = ''name'', p_groups = None,
                               clock_video = False, clock_audio = False\<rparr>,
                 Begin_data_capture {}])"
  by (simp add: start_rejects_claim_def start_eval)

text \<open>
  \<^bold>\<open>C3\<close>, amended. start rejects whenever the host offers neither a video handle nor
  an audio handle, whatever the two flags: it returns \<^verbatim>\<open>false\<close>, makes no call (so
  none to \<^verbatim>\<open>send_create\<close>) and leaves the instance as it was.
\<close>

theorem start_rejects_amended:
  assumes "obs_output_video h = None" and "obs_output_audio h = None"
  shows "ndi_output_start h o' = (False, o', [])"
  using assms by (simp add: ndi_output_start_def)

theorem start_rejects_amended_witness:
  "obs_output_video (host_of None None) = None \<and> obs_output_audio (host_of None None) = None \<and>
   uses_video (ndi_output_create ndi_output_getdefaults 0) \<and>
   uses_audio (ndi_output_create ndi_output_getdefaults 0) \<and>
   ndi_output_start (host_of None None) (ndi_output_create ndi_output_getdefaults 0) =
     (False, ndi_output_create ndi_output_getdefaults 0, [])"
proof -
  have v: "obs_output_video (host_of None None) = None" by (simp add: host_of_def)
  have a: "obs_output_audio (host_of None None) = None" by (simp add: host_of_def)
  show ?thesis
    using v a start_rejects_amended [OF v a, of "ndi_output_create ndi_output_getdefaults 0"]
    by (simp add: ndi_output_create_def ndi_output_update_def ndi_output_getdefaults_def)
qed

text \<open>
  \<^bold>\<open>C8\<close> (started gating). On an instance whose \<^verbatim>\<open>started\<close> flag is false, raw_video
  and raw_audio return at once: no call is made (so no vendor send) and the instance
  is unchanged.
\<close>

theorem started_gating:
  assumes "\<not> started o'"
  shows "ndi_output_rawvideo o' vframe = Some (o', []) \<and> ndi_output_rawaudio h o' aframe = (o', [])"
  using assms by (simp add: ndi_output_rawvideo_def ndi_output_rawaudio_def)

theorem started_gating_witness:
  "\<not> started (ndi_output_create ndi_output_getdefaults 0) \<and>
   ndi_output_rawvideo (ndi_output_create ndi_output_getdefaults 0)
       \<lparr>v_data = s1_input, v_linesize = (\<lambda>p. 4), v_timestamp = 0\<rparr> =
     Some (ndi_output_create ndi_output_getdefaults 0, []) \<and>
   ndi_output_rawaudio (host_of None None) (ndi_output_create ndi_output_getdefaults 0)
       \<lparr>a_data = s1_input, a_frames = 1024\<rparr> =
     (ndi_output_create ndi_output_getdefaults 0, []) \<and>
   \<not> started (fst (ndi_output_stop
       (started_with (host_of (Some (video_4x2 VIDEO_FORMAT_I444 (Double 30 0))) (Some audio_stereo))
              ndi_output_getdefaults))) \<and>
   ndi_output_rawaudio (host_of None None)
       (fst (ndi_output_stop
          (started_with (host_of (Some (video_4x2 VIDEO_FORMAT_I444 (Double 30 0))) (Some audio_stereo))
              ndi_output_getdefaults)))
       \<lparr>a_data = s1_input, a_frames = 1024\<rparr> =
     (fst (ndi_output_stop
          (started_with (host_of (Some (video_4x2 VIDEO_FORMAT_I444 (Double 30 0))) (Some audio_stereo))
              ndi_output_getdefaults)), [])"
proof -
  let ?c = "ndi_output_create ndi_output_getdefaults 0"
  let ?s = "fst (ndi_output_stop
       (started_with (host_of (Some (video_4x2 VIDEO_FORMAT_I444 (Double 30 0))) (Some audio_stereo))
              ndi_output_getdefaults))"
  have c: "\<not> started ?c" by (simp add: start_eval)
  have s: "\<not> started ?s" by (simp add: start_eval ndi_output_stop_def)
  show ?thesis
    using c s
      started_gating [OF c, of "\<lparr>v_data = s1_input, v_linesize = (\<lambda>p. 4), v_timestamp = 0\<rparr>"
         "host_of None None" "\<lparr>a_data = s1_input, a_frames = 1024\<rparr>"]
      started_gating [OF s, of "\<lparr>v_data = s1_input, v_linesize = (\<lambda>p. 4), v_timestamp = 0\<rparr>"
         "host_of None None" "\<lparr>a_data = s1_input, a_frames = 1024\<rparr>"]
    by simp
qed

text \<open>
  \<^bold>\<open>C10\<close> (gating on the negotiated state). On a started instance, raw_video makes
  no call and changes nothing when the negotiated width or height is zero, and
  raw_audio makes no call and changes nothing when the negotiated sample rate or
  channel count is zero.
\<close>

theorem negotiated_gating:
  assumes "started o'"
  shows "(if frame_width o' = 0 \<or> frame_height o' = 0
          then ndi_output_rawvideo o' vframe = Some (o', []) else True) \<and>
         (if audio_samplerate o' = 0 \<or> audio_channels o' = 0
          then ndi_output_rawaudio h o' aframe = (o', []) else True)"
  by (simp add: ndi_output_rawvideo_def ndi_output_rawaudio_def)

theorem negotiated_gating_witness:
  "started (started_with (host_of None (Some audio_stereo)) ndi_output_getdefaults) \<and>
   frame_width (started_with (host_of None (Some audio_stereo)) ndi_output_getdefaults) = 0 \<and>
   ndi_output_rawvideo (started_with (host_of None (Some audio_stereo)) ndi_output_getdefaults)
       \<lparr>v_data = s1_input, v_linesize = (\<lambda>p. 4), v_timestamp = 0\<rparr> =
     Some (started_with (host_of None (Some audio_stereo)) ndi_output_getdefaults, []) \<and>
   started (started_with (host_of (Some (video_4x2 VIDEO_FORMAT_NV12 (Double 30 0))) None)
              ndi_output_getdefaults) \<and>
   audio_samplerate (started_with (host_of (Some (video_4x2 VIDEO_FORMAT_NV12 (Double 30 0))) None)
              ndi_output_getdefaults) = 0 \<and>
   ndi_output_rawaudio (host_of None None)
       (started_with (host_of (Some (video_4x2 VIDEO_FORMAT_NV12 (Double 30 0))) None)
              ndi_output_getdefaults)
       \<lparr>a_data = s1_input, a_frames = 1024\<rparr> =
     (started_with (host_of (Some (video_4x2 VIDEO_FORMAT_NV12 (Double 30 0))) None)
              ndi_output_getdefaults, [])"
proof -
  let ?a = "started_with (host_of None (Some audio_stereo)) ndi_output_getdefaults"
  let ?v = "started_with (host_of (Some (video_4x2 VIDEO_FORMAT_NV12 (Double 30 0))) None)
              ndi_output_getdefaults"
  have a: "started ?a" "frame_width ?a = 0" by (simp_all add: start_eval)
  have v: "started ?v" "audio_samplerate ?v = 0" by (simp_all add: start_eval)
  show ?thesis
    using a v
      negotiated_gating [OF a(1), of "\<lparr>v_data = s1_input, v_linesize = (\<lambda>p. 4), v_timestamp = 0\<rparr>"
         "host_of None None" "\<lparr>a_data = s1_input, a_frames = 1024\<rparr>"]
      negotiated_gating [OF v(1), of "\<lparr>v_data = s1_input, v_linesize = (\<lambda>p. 4), v_timestamp = 0\<rparr>"
         "host_of None None" "\<lparr>a_data = s1_input, a_frames = 1024\<rparr>"]
    by simp
qed

subsection \<open>The audio path\<close>

lemma sint_small:
  fixes w :: c_int
  assumes "unat w < 2 ^ 31"
  shows "sint w = int (unat w)"
proof -
  from assms have "int (unat w) < int (2 ^ 31)" by (simp only: of_nat_less_iff)
  then have lt: "uint w < 2 ^ 31" by simp
  have "(0::int) \<le> uint w" by (rule uint_nonnegative)
  moreover have "- (2 ^ 31) \<le> (0::int)" by simp
  ultimately have ge: "- (2 ^ 31) \<le> uint w" by (rule order_trans [rotated])
  have "sint w = signed_take_bit (LENGTH(32) - Suc 0) (uint w)" by (rule sint_uint)
  also have "\<dots> = signed_take_bit 31 (uint w)" by simp
  also have "\<dots> = uint w" using ge lt by (rule signed_take_bit_int_eq_self)
  finally show ?thesis by simp
qed

lemma ucast_small:
  fixes c :: u64
  assumes "unat c < 2 ^ 32"
  shows "unat (ucast c :: c_int) = unat c"
  using assms by (simp add: unsigned_ucast_eq take_bit_nat_eq_self)

lemma scast_small:
  fixes w :: c_int
  assumes "unat w < 2 ^ 31"
  shows "unat (scast w :: u64) = unat w"
proof -
  have "(scast w :: u64) = of_int (sint w)" by (rule scast_eq)
  also have "\<dots> = of_nat (unat w)" by (simp only: sint_small [OF assms] of_int_of_nat_eq)
  finally have "unat (scast w :: u64) = unat w mod 2 ^ LENGTH(64)" by (simp only: unat_of_nat)
  moreover have "unat w < 2 ^ 64" using assms by simp
  ultimately show ?thesis by simp
qed

lemma unat_mult_small:
  fixes a b :: c_int
  assumes "unat a * unat b < 2 ^ 31"
  shows "unat (a * b) = unat a * unat b"
proof -
  from assms have "unat a * unat b < 2 ^ LENGTH(32)" by simp
  then show ?thesis by (simp only: unat_mult_lem)
qed

lemma unat_succ_small:
  fixes i :: c_int
  assumes "unat i < 2 ^ 31"
  shows "unat (i + 1) = Suc (unat i)"
proof -
  from assms have "unat i + unat (1 :: c_int) < 2 ^ LENGTH(32)" by simp
  then have "unat (i + 1) = unat i + unat (1 :: c_int)" by (simp only: unat_add_lem)
  then show ?thesis by simp
qed

lemma mult_less_left:
  fixes a b c :: nat
  assumes "a * b < c" and "0 < b"
  shows "a < c"
  using assms by (cases b) auto

lemma mult_less_right:
  fixes a b c :: nat
  assumes "a * b < c" and "0 < a"
  shows "b < c"
  using assms by (cases a) auto

lemma mult_less_mono_left:
  fixes k n s c :: nat
  assumes "n * s < c" and "k \<le> n"
  shows "k * s < c"
proof -
  have "k * s \<le> n * s" using assms(2) by (rule mult_le_mono1)
  with assms(1) show ?thesis by (rule le_less_trans [rotated])
qed

lemma memcpy_Some:
  "memcpy (Some buf) (int off) src n =
     Some (\<lambda>a. if off \<le> a \<and> a < off + n then src (a - off) else buf a)"
  by (auto simp: memcpy_def fun_eq_iff nat_diff_distrib')

lemma copy_channels_repack:
  fixes i channels stride :: c_int
  assumes "unat channels * unat stride < 2 ^ 31" and "0 < unat stride"
    and "unat i \<le> unat channels"
  shows "copy_channels i channels stride data (Some buf) =
           Some (repacked data (unat i) (unat channels) (unat stride) buf)"
  using assms
proof (induction "unat channels - unat i" arbitrary: i buf)
  case 0
  then have eq: "unat i = unat channels" by simp
  have c: "unat channels < 2 ^ 31" using 0(2,3) by (rule mult_less_left)
  have "unat i < 2 ^ 31" using c by (simp only: eq)
  then have "sint i = sint channels" by (simp only: sint_small [OF c] sint_small eq)
  then have "\<not> i <s channels" by (simp add: word_sless_alt)
  moreover have "repacked data (unat i) (unat channels) (unat stride) buf = buf"
    by (rule ext) (auto simp: repacked_def eq)
  ultimately show ?case
    by (subst copy_channels.simps) simp
next
  case (Suc n)
  let ?N = "unat channels" and ?S = "unat stride" and ?k = "unat i"
  have c: "?N < 2 ^ 31" using Suc.prems(1,2) by (rule mult_less_left)
  from Suc.hyps(2) have lt: "?k < ?N" by simp
  then have "0 < ?N" by simp
  with Suc.prems(1) have s: "?S < 2 ^ 31" by (rule mult_less_right)
  from lt c have k: "?k < 2 ^ 31" by (rule less_trans)
  have less: "i <s channels"
    using lt by (simp only: word_sless_alt sint_small [OF c] sint_small [OF k] of_nat_less_iff)
  have kS: "?k * ?S < 2 ^ 31"
    using Suc.prems(1) less_imp_le [OF lt] by (rule mult_less_mono_left)
  have "unat (i * stride) = ?k * ?S" using kS by (rule unat_mult_small)
  moreover from this kS have "unat (i * stride) < 2 ^ 31" by simp
  ultimately have off: "sint (i * stride) = int (?k * ?S)" by (simp only: sint_small)
  have idx: "nat (sint i) = ?k" by (simp only: sint_small [OF k] nat_int)
  have len: "unat (scast stride :: u64) = ?S" using s by (rule scast_small)
  have suc: "unat (i + 1) = Suc ?k" using k by (rule unat_succ_small)
  have n: "n = ?N - unat (i + 1)" using Suc.hyps(2) suc by simp
  have le: "unat (i + 1) \<le> ?N" using suc lt by simp
  let ?buf' = "\<lambda>a. if ?k * ?S \<le> a \<and> a < ?k * ?S + ?S then data ?k (a - ?k * ?S) else buf a"
  have step: "copy_channels i channels stride data (Some buf) =
      copy_channels (i + 1) channels stride data (Some ?buf')"
    by (subst copy_channels.simps) (simp only: less if_True off idx len memcpy_Some)
  have "repacked data (Suc ?k) ?N ?S ?buf' = repacked data ?k ?N ?S buf"
  proof (rule ext)
    fix a
    show "repacked data (Suc ?k) ?N ?S ?buf' a = repacked data ?k ?N ?S buf a"
    proof (cases "?k * ?S \<le> a \<and> a < ?k * ?S + ?S")
      case True
      then have d: "a div ?S = ?k"
        by (metis Suc.prems(2) div_nat_eqI mult.commute mult_Suc_right add.commute)
      have m: "a mod ?S = a - ?k * ?S"
        using d by (metis minus_mult_div_eq_mod mult.commute)
      have "Suc ?k * ?S \<le> ?N * ?S" using lt by (intro mult_le_mono1) simp
      with True have "a < ?N * ?S" by simp
      with True d m show ?thesis by (simp add: repacked_def)
    next
      case False
      then show ?thesis by (auto simp: repacked_def)
    qed
  qed
  with Suc.hyps(1) [OF n Suc.prems(1,2) le, of ?buf'] step suc show ?case by simp
qed

lemma sint_succ:
  fixes i channels :: c_int
  assumes "i <s channels"
  shows "sint (i + 1) = sint i + 1"
proof -
  from assms have a: "sint i < sint channels" by (simp add: word_sless_alt)
  moreover have "sint channels < 2 ^ 31" using sint_less [of channels] by simp
  moreover have "- (2 ^ 31) \<le> sint i" using sint_greater_eq [of i] by simp
  ultimately have r: "- (2 ^ 31) \<le> sint i + 1" "sint i + 1 < 2 ^ 31" by simp_all
  have "sint (i + 1) = signed_take_bit 31 (sint i + 1)"
    by (simp add: sint_word_ariths)
  also have "\<dots> = sint i + 1" using r by (simp add: signed_take_bit_int_eq_self)
  finally show ?thesis .
qed

lemma memcpy_None: "memcpy None off src n = None"
  by (simp add: memcpy_def)

lemma memcpy_Some_ex: "\<exists>b. memcpy (Some buf) off src n = Some b"
  by (simp add: memcpy_def)

lemma copy_channels_None: "copy_channels i channels stride data None = None"
proof (induction "nat (sint channels - sint i)" arbitrary: i)
  case 0
  then have "\<not> i <s channels" by (simp add: word_sless_alt)
  then show ?case by (subst copy_channels.simps) simp
next
  case (Suc n)
  then have lt: "i <s channels" by (simp add: word_sless_alt)
  have n: "n = nat (sint channels - sint (i + 1))"
    using Suc.hyps(2) sint_succ [OF lt] by simp
  show ?case
    by (subst copy_channels.simps) (simp only: lt if_True memcpy_None Suc.hyps(1) [OF n])
qed

lemma copy_channels_Some_ex: "\<exists>buf'. copy_channels i channels stride data (Some buf) = Some buf'"
proof (induction "nat (sint channels - sint i)" arbitrary: i buf)
  case 0
  then have "\<not> i <s channels" by (simp add: word_sless_alt)
  then show ?case by (subst copy_channels.simps) simp
next
  case (Suc n)
  then have lt: "i <s channels" by (simp add: word_sless_alt)
  have n: "n = nat (sint channels - sint (i + 1))"
    using Suc.hyps(2) sint_succ [OF lt] by simp
  obtain b where b: "memcpy (Some buf) (sint (i * stride)) (data (nat (sint i)))
      (unat (scast stride :: u64)) = Some b"
    using memcpy_Some_ex by blast
  show ?case
    by (subst copy_channels.simps) (simp only: lt if_True b Suc.hyps(1) [OF n])
qed

lemma rawaudio_dropped:
  assumes "\<not> started o' \<or> audio_samplerate o' = 0 \<or> audio_channels o' = 0"
  shows "ndi_output_rawaudio h o' frame = (o', [])"
  using assms by (simp add: ndi_output_rawaudio_def)

lemma rawaudio_grow:
  assumes "started o'" and "audio_samplerate o' \<noteq> 0" and "audio_channels o' \<noteq> 0"
    and "audio_conv_buffer_size o' < audio_data_size o' frame"
  shows "audio_conv_buffer_size (fst (ndi_output_rawaudio h o' frame)) = audio_data_size o' frame \<and>
         audio_conv_buffer (fst (ndi_output_rawaudio h o' frame)) =
           copy_channels 0 (ucast (audio_channels o')) (a_frames frame * 4) (a_data frame)
             (Some (bmalloc h (unat (audio_data_size o' frame))))"
  using assms by (simp add: ndi_output_rawaudio_def audio_data_size_def Let_def)

lemma rawaudio_keep:
  assumes "started o'" and "audio_samplerate o' \<noteq> 0" and "audio_channels o' \<noteq> 0"
    and "\<not> audio_conv_buffer_size o' < audio_data_size o' frame"
  shows "audio_conv_buffer_size (fst (ndi_output_rawaudio h o' frame)) = audio_conv_buffer_size o' \<and>
         audio_conv_buffer (fst (ndi_output_rawaudio h o' frame)) =
           copy_channels 0 (ucast (audio_channels o')) (a_frames frame * 4) (a_data frame)
             (audio_conv_buffer o')"
  using assms by (simp add: ndi_output_rawaudio_def audio_data_size_def Let_def)

lemma rawaudio_scratch_ok:
  assumes "scratch_ok o'"
  shows "scratch_ok (fst (ndi_output_rawaudio h o' frame))"
proof (cases "\<not> started o' \<or> audio_samplerate o' = 0 \<or> audio_channels o' = 0")
  case True
  then have "ndi_output_rawaudio h o' frame = (o', [])" by (rule rawaudio_dropped)
  with assms show ?thesis by simp
next
  case False
  then have p: "started o'" "audio_samplerate o' \<noteq> 0" "audio_channels o' \<noteq> 0" by simp_all
  let ?o2 = "fst (ndi_output_rawaudio h o' frame)"
  let ?copy = "copy_channels 0 (ucast (audio_channels o')) (a_frames frame * 4) (a_data frame)"
  show ?thesis
  proof (cases "audio_conv_buffer_size o' < audio_data_size o' frame")
    case True
    have "audio_conv_buffer ?o2 = ?copy (Some (bmalloc h (unat (audio_data_size o' frame))))"
      using rawaudio_grow [OF p True] by (rule conjunct2)
    moreover obtain b where "?copy (Some (bmalloc h (unat (audio_data_size o' frame)))) = Some b"
      using copy_channels_Some_ex by blast
    ultimately have "audio_conv_buffer ?o2 = Some b" by (rule trans)
    then show ?thesis by (simp add: scratch_ok_def)
  next
    case False
    have b: "audio_conv_buffer ?o2 = ?copy (audio_conv_buffer o')"
      using rawaudio_keep [OF p False] by (rule conjunct2)
    have s: "audio_conv_buffer_size ?o2 = audio_conv_buffer_size o'"
      using rawaudio_keep [OF p False] by (rule conjunct1)
    show ?thesis
    proof (cases "audio_conv_buffer o'")
      case None
      with assms have "audio_conv_buffer_size o' = 0" by (simp add: scratch_ok_def)
      with s show ?thesis by (simp add: scratch_ok_def)
    next
      case (Some buf)
      obtain b' where "?copy (Some buf) = Some b'" using copy_channels_Some_ex by blast
      with b Some have "audio_conv_buffer ?o2 = Some b'" by simp
      then show ?thesis by (simp add: scratch_ok_def)
    qed
  qed
qed

lemma start_sender_audio_fields:
  "audio_conv_buffer (fst (snd (start_sender h o' flags calls))) = audio_conv_buffer o' \<and>
   audio_conv_buffer_size (fst (snd (start_sender h o' flags calls))) = audio_conv_buffer_size o'"
  by (simp add: start_sender_def Let_def)

lemma start_audio_block_fields:
  "audio_conv_buffer (fst (start_audio_block a o' flags)) = audio_conv_buffer o' \<and>
   audio_conv_buffer_size (fst (start_audio_block a o' flags)) = audio_conv_buffer_size o'"
  by (cases a) (simp_all add: start_audio_block_def)

lemma start_switch_audio_fields:
  assumes "start_switch f w hh o' = Some (o1, cs)"
  shows "audio_conv_buffer o1 = audio_conv_buffer o' \<and>
         audio_conv_buffer_size o1 = audio_conv_buffer_size o'"
  using assms by (cases f) (auto simp: Let_def)

lemma start_video_block_audio_fields:
  assumes "start_video_block v o' = Some (o1, fl, cs)"
  shows "audio_conv_buffer o1 = audio_conv_buffer o' \<and>
         audio_conv_buffer_size o1 = audio_conv_buffer_size o'"
proof (cases v)
  case None
  with assms show ?thesis by (simp add: start_video_block_def)
next
  case (Some x)
  show ?thesis
  proof (cases "uses_video o'")
    case False
    with assms Some show ?thesis by (simp add: start_video_block_def)
  next
    case True
    with assms Some obtain o0 cs0 where
      s0: "start_switch (vo_format x) (vo_width x) (vo_height x) o' = Some (o0, cs0)" and
      o1: "o1 = o0\<lparr>frame_width := vo_width x, frame_height := vo_height x,
                     video_framerate := vo_frame_rate x\<rparr>"
      by (auto simp: start_video_block_def start_video_def Let_def split: option.splits)
    from start_switch_audio_fields [OF s0] o1 show ?thesis by simp
  qed
qed

lemma start_audio_fields:
  "audio_conv_buffer (fst (snd (ndi_output_start h o'))) = audio_conv_buffer o' \<and>
   audio_conv_buffer_size (fst (snd (ndi_output_start h o'))) = audio_conv_buffer_size o'"
proof (cases "started o' \<or> (obs_output_video h = None \<and> obs_output_audio h = None)")
  case True
  then show ?thesis by (auto simp: ndi_output_start_def Let_def)
next
  case False
  show ?thesis
  proof (cases "start_video_block (obs_output_video h) o'")
    case None
    with False show ?thesis by (simp add: ndi_output_start_def Let_def)
  next
    case (Some r)
    obtain o1 fl cs where r: "r = (o1, fl, cs)" by (cases r) auto
    obtain o2 fl2 where a: "start_audio_block (obs_output_audio h) o1 fl = (o2, fl2)"
      by (cases "start_audio_block (obs_output_audio h) o1 fl") auto
    have st: "ndi_output_start h o' = start_sender h o2 fl2 cs"
      using False Some r a by (auto simp: ndi_output_start_def Let_def)
    from start_audio_block_fields [of "obs_output_audio h" o1 fl] a
    have "audio_conv_buffer o2 = audio_conv_buffer o1 \<and>
          audio_conv_buffer_size o2 = audio_conv_buffer_size o1" by simp
    with start_video_block_audio_fields [of "obs_output_video h" o' o1 fl cs] Some r
      start_sender_audio_fields [of h o2 fl2 cs] st
    show ?thesis by simp
  qed
qed

lemma stop_audio_fields:
  "audio_conv_buffer (fst (ndi_output_stop o')) = audio_conv_buffer o' \<and>
   audio_conv_buffer_size (fst (ndi_output_stop o')) = audio_conv_buffer_size o'"
  by (cases "ndi_sender o'"; cases "conv_buffer o'") (simp_all add: ndi_output_stop_def Let_def)

lemma rawvideo_audio_fields:
  assumes "ndi_output_rawvideo o' frame = Some (o1, calls)"
  shows "audio_conv_buffer o1 = audio_conv_buffer o' \<and>
         audio_conv_buffer_size o1 = audio_conv_buffer_size o'"
proof (cases "\<not> started o' \<or> frame_width o' = 0 \<or> frame_height o' = 0")
  case True
  with assms have "o1 = o'" by (simp add: ndi_output_rawvideo_def)
  then show ?thesis by simp
next
  case False
  show ?thesis
  proof (cases "frame_fourcc o' = NDIlib_FourCC_video_type_UYVY")
    case no: False
    with False assms have "o1 = o'" by (simp add: ndi_output_rawvideo_def Let_def)
    then show ?thesis by simp
  next
    case True
    with False assms obtain accesses where
      "o1 = o'\<lparr>conv_buffer := map_option (write_back accesses) (conv_buffer o')\<rparr>"
      by (auto simp: ndi_output_rawvideo_def Let_def
            split: option.splits uyvy_conv_function.splits if_splits)
    then show ?thesis by simp
  qed
qed

lemma step_scratch_ok:
  assumes "step e o' = Some (o1, calls)" and "scratch_ok o'"
  shows "scratch_ok o1"
proof (cases e)
  case (Update settings)
  with assms show ?thesis by (auto simp: scratch_ok_def ndi_output_update_def)
next
  case (Start h)
  with assms(1) have "o1 = fst (snd (ndi_output_start h o'))" by (auto split: prod.splits)
  with assms(2) start_audio_fields [of h o'] show ?thesis by (simp add: scratch_ok_def)
next
  case Stop
  with assms(1) have "o1 = fst (ndi_output_stop o')" by auto
  with assms(2) stop_audio_fields [of o'] show ?thesis by (simp add: scratch_ok_def)
next
  case (Raw_video frame)
  with assms(1) have "ndi_output_rawvideo o' frame = Some (o1, calls)" by simp
  from rawvideo_audio_fields [OF this] assms(2) show ?thesis by (simp add: scratch_ok_def)
next
  case (Raw_audio h frame)
  with assms(1) have "o1 = fst (ndi_output_rawaudio h o' frame)" by auto
  with rawaudio_scratch_ok [OF assms(2)] show ?thesis by simp
qed

lemma run_scratch_ok:
  assumes "run evs o' = Some o1" and "scratch_ok o'"
  shows "scratch_ok o1"
  using assms
proof (induction evs arbitrary: o')
  case Nil
  then show ?case by simp
next
  case (Cons e evs)
  from Cons.prems(1) obtain o2 calls where
    s: "step e o' = Some (o2, calls)" and r: "run evs o2 = Some o1"
    by (cases "step e o'") auto
  from s Cons.prems(2) have "scratch_ok o2" by (rule step_scratch_ok)
  with r show ?case by (rule Cons.IH)
qed

lemma create_scratch_ok: "scratch_ok (ndi_output_create settings out)"
  by (simp add: scratch_ok_def ndi_output_create_def ndi_output_update_def bzalloc_ndi_output_def)

lemma rawaudio_sent:
  assumes "started o'" and "audio_samplerate o' \<noteq> 0" and "audio_channels o' \<noteq> 0"
  shows "map a_p_data (sent_audio (snd (ndi_output_rawaudio h o' frame))) =
           [audio_conv_buffer (fst (ndi_output_rawaudio h o' frame))]"
proof (cases "audio_conv_buffer_size o' < audio_data_size o' frame")
  case True
  with assms show ?thesis
    by (cases "audio_conv_buffer o'")
       (simp_all add: ndi_output_rawaudio_def audio_data_size_def Let_def)
next
  case False
  with assms show ?thesis
    by (simp add: ndi_output_rawaudio_def audio_data_size_def Let_def)
qed

lemma audio_sizes_exact:
  fixes channels :: u64 and frames :: u32
  assumes "unat channels * (4 * unat frames) < 2 ^ 31" and "0 < unat frames" and "channels \<noteq> 0"
  shows "unat (ucast channels :: c_int) = unat channels"
    and "unat (frames * 4) = 4 * unat frames"
    and "unat (scast ((ucast channels :: c_int) * (frames * 4)) :: u64) =
           unat channels * (4 * unat frames)"
proof -
  have s0: "0 < 4 * unat frames" using assms(2) by simp
  have n: "unat channels < 2 ^ 31" using assms(1) s0 by (rule mult_less_left)
  then have "unat channels < 2 ^ 32" by simp
  then show nc: "unat (ucast channels :: c_int) = unat channels" by (rule ucast_small)
  have "0 < unat channels" using assms(3) by (simp add: unat_gt_0)
  with assms(1) have s: "4 * unat frames < 2 ^ 31" by (rule mult_less_right)
  then have "unat frames * unat (4 :: u32) < 2 ^ 31" by (simp add: mult.commute)
  then have "unat (frames * 4) = unat frames * unat (4 :: u32)" by (rule unat_mult_small)
  then show st: "unat (frames * 4) = 4 * unat frames" by simp
  have "unat (ucast channels :: c_int) * unat (frames * 4) < 2 ^ 31"
    using assms(1) by (simp only: nc st)
  then have p: "unat ((ucast channels :: c_int) * (frames * 4)) =
      unat (ucast channels :: c_int) * unat (frames * 4)"
    by (rule unat_mult_small)
  then have "unat ((ucast channels :: c_int) * (frames * 4)) < 2 ^ 31"
    using assms(1) by (simp only: nc st)
  then have "unat (scast ((ucast channels :: c_int) * (frames * 4)) :: u64) =
      unat ((ucast channels :: c_int) * (frames * 4))"
    by (rule scast_small)
  with p show "unat (scast ((ucast channels :: c_int) * (frames * 4)) :: u64) =
      unat channels * (4 * unat frames)"
    by (simp only: nc st)
qed

lemma repacked_at:
  assumes "i < channels" and "k < stride"
  shows "repacked data 0 channels stride buf (i * stride + k) = data i k"
proof -
  have "Suc i * stride \<le> channels * stride" using assms(1) by (intro mult_le_mono1) simp
  with assms(2) have "i * stride + k < channels * stride" by simp
  with assms(2) show ?thesis by (simp add: repacked_def)
qed

text \<open>
  \<^bold>\<open>C7\<close>, amended. For every instance reached from create by a sequence of callbacks
  and every raw_audio frame it processes while running (started, sample rate and
  channel count \<open>N\<close> not zero) with \<open>F\<close> samples such that \<open>N * 4 * F < 2^31\<close> (the
  byte count fits the \<^verbatim>\<open>int\<close> fields of the vendor's descriptor): after the call the
  audio buffer holds, for every channel \<open>i < N\<close>, the bytes of input channel \<open>i\<close> in the
  range \<open>[i * 4F, (i + 1) * 4F)\<close>, and that buffer is the data of the one audio frame
  sent.
\<close>

theorem audio_repack_amended:
  assumes "run evs (ndi_output_create settings out) = Some o'"
    and "started o'" and "audio_samplerate o' \<noteq> 0" and "audio_channels o' \<noteq> 0"
    and "unat (audio_channels o') * (4 * unat (a_frames frame)) < 2 ^ 31"
  shows "(case ndi_output_rawaudio h o' frame of
            (o2, calls) \<Rightarrow>
              map a_p_data (sent_audio calls) = [audio_conv_buffer o2] \<and>
              (\<forall>i < unat (audio_channels o'). \<forall>k < 4 * unat (a_frames frame).
                 \<exists>buf. audio_conv_buffer o2 = Some buf \<and>
                       buf (i * (4 * unat (a_frames frame)) + k) = a_data frame i k))"
proof -
  let ?N = "unat (audio_channels o')" and ?S = "4 * unat (a_frames frame)"
  let ?r = "ndi_output_rawaudio h o' frame"
  let ?nc = "ucast (audio_channels o') :: c_int" and ?st = "a_frames frame * 4"
  have p: "started o'" "audio_samplerate o' \<noteq> 0" "audio_channels o' \<noteq> 0" by fact+
  have ok: "scratch_ok o'" using assms(1) create_scratch_ok by (rule run_scratch_ok)
  have sent: "map a_p_data (sent_audio (snd ?r)) = [audio_conv_buffer (fst ?r)]"
    using p by (rule rawaudio_sent)
  have bytes: "\<exists>buf. audio_conv_buffer (fst ?r) = Some buf \<and> buf (i * ?S + k) = a_data frame i k"
    if i: "i < ?N" and k: "k < ?S" for i k
  proof -
    from k have f: "0 < unat (a_frames frame)" by simp
    note ex = audio_sizes_exact [OF assms(5) f p(3)]
    have ds: "unat (audio_data_size o' frame) = ?N * ?S"
      by (simp only: audio_data_size_def ex(3))
    have lim: "unat ?nc * unat ?st < 2 ^ 31" using assms(5) by (simp only: ex)
    have pos: "0 < unat ?st" using k by (simp only: ex)
    have z: "unat (0 :: c_int) \<le> unat ?nc" by simp
    have copy: "copy_channels 0 ?nc ?st (a_data frame) (Some b) =
        Some (repacked (a_data frame) 0 ?N ?S b)" for b
      using copy_channels_repack [OF lim pos z, of "a_data frame" b] by (simp add: ex)
    have "\<exists>b. audio_conv_buffer (fst ?r) = Some (repacked (a_data frame) 0 ?N ?S b)"
    proof (cases "audio_conv_buffer_size o' < audio_data_size o' frame")
      case True
      have "audio_conv_buffer (fst ?r) =
          copy_channels 0 ?nc ?st (a_data frame) (Some (bmalloc h (unat (audio_data_size o' frame))))"
        using rawaudio_grow [OF p True] by (rule conjunct2)
      then show ?thesis by (simp only: copy) blast
    next
      case False
      have b: "audio_conv_buffer (fst ?r) = copy_channels 0 ?nc ?st (a_data frame) (audio_conv_buffer o')"
        using rawaudio_keep [OF p False] by (rule conjunct2)
      show ?thesis
      proof (cases "audio_conv_buffer o'")
        case None
        with ok have "audio_conv_buffer_size o' = 0" by (simp add: scratch_ok_def)
        with False have "\<not> 0 < unat (audio_data_size o' frame)"
          by (simp add: word_less_nat_alt)
        moreover have "0 < ?N * ?S" using i k by (cases ?N) auto
        ultimately have False by (simp add: ds)
        then show ?thesis ..
      next
        case (Some buf)
        with b show ?thesis by (simp only: copy) blast
      qed
    qed
    then obtain b where "audio_conv_buffer (fst ?r) = Some (repacked (a_data frame) 0 ?N ?S b)"
      by blast
    with repacked_at [OF i k, of "a_data frame" b] show ?thesis by simp
  qed
  from sent bytes show ?thesis by (cases ?r) auto
qed

lemmas audio_eval = audio_running_def audio_frame_of_def ndi_output_rawaudio_def
  copy_channels.simps memcpy_def word_sless_alt

lemma audio_running_facts:
  "run [Start (host_of None (Some audio_stereo))] (ndi_output_create ndi_output_getdefaults 0) =
     Some audio_running"
  "started audio_running" "audio_samplerate audio_running = 48000" "audio_channels audio_running = 2"
  "audio_conv_buffer audio_running = None" "audio_conv_buffer_size audio_running = 0"
  by (simp_all add: audio_running_def start_eval)

text \<open>
  \<^bold>\<open>C7\<close> as stated fails. A frame of \<open>2^30 + 1\<close> samples on a running stereo instance:
  \<^verbatim>\<open>frame->frames * 4\<close> is a 32-bit product and wraps to 4, so every channel is copied
  with stride 4 into a buffer of 8 bytes. Byte 4 of the buffer is the first byte of
  channel 1 (16), whereas offset 4 lies in the range \<open>[0, 4 * F)\<close> that the claim gives
  to channel 0 (whose byte 4 is 4).
\<close>

theorem audio_repack_counterexample:
  "\<not> repack_claim (host_of None None) audio_running (audio_frame_of 1073741825) \<and>
   (case ndi_output_rawaudio (host_of None None) audio_running (audio_frame_of 1073741825) of
      (o2, calls) \<Rightarrow>
        map channel_stride_in_bytes (sent_audio calls) = [4] \<and>
        audio_conv_buffer_size o2 = 8 \<and>
        map_option (\<lambda>buf. map buf [0..<8]) (audio_conv_buffer o2) =
          Some [0, 1, 2, 3, 16, 17, 18, 19])"
proof -
  let ?r = "ndi_output_rawaudio (host_of None None) audio_running (audio_frame_of 1073741825)"
  have b: "map_option (\<lambda>buf. buf 4) (audio_conv_buffer (fst ?r)) = Some 16"
    by (simp add: audio_running_facts audio_frame_of_def ndi_output_rawaudio_def
          copy_channels.simps memcpy_def word_sless_alt host_of_def)
  have c: "\<not> repack_claim (host_of None None) audio_running (audio_frame_of 1073741825)"
  proof
    assume "repack_claim (host_of None None) audio_running (audio_frame_of 1073741825)"
    then have "\<forall>i < unat (audio_channels audio_running).
        \<forall>k < 4 * unat (a_frames (audio_frame_of 1073741825)).
          (case audio_conv_buffer (fst ?r) of
             None \<Rightarrow> False
           | Some buf \<Rightarrow> buf (i * (4 * unat (a_frames (audio_frame_of 1073741825))) + k) =
               a_data (audio_frame_of 1073741825) i k)"
      by (simp add: repack_claim_def audio_running_facts split: prod.splits)
    then have "(case audio_conv_buffer (fst ?r) of
             None \<Rightarrow> False
           | Some buf \<Rightarrow> buf (0 * (4 * unat (a_frames (audio_frame_of 1073741825))) + 4) =
               a_data (audio_frame_of 1073741825) 0 4)"
      by (simp add: audio_running_facts audio_frame_of_def)
    with b show False by (auto simp: audio_frame_of_def split: option.splits)
  qed
  have d: "(case ?r of
      (o2, calls) \<Rightarrow>
        map channel_stride_in_bytes (sent_audio calls) = [4] \<and>
        audio_conv_buffer_size o2 = 8 \<and>
        map_option (\<lambda>buf. map buf [0..<8]) (audio_conv_buffer o2) =
          Some [0, 1, 2, 3, 16, 17, 18, 19])"
    by (simp add: audio_running_facts audio_frame_of_def ndi_output_rawaudio_def
          copy_channels.simps memcpy_def word_sless_alt host_of_def upt_rec)
  from c d show ?thesis by (rule conjI)
qed

theorem audio_repack_amended_witness:
  "run [Start (host_of None (Some audio_stereo))] (ndi_output_create ndi_output_getdefaults 0) =
     Some audio_running \<and>
   started audio_running \<and> audio_samplerate audio_running \<noteq> 0 \<and>
   audio_channels audio_running \<noteq> 0 \<and>
   unat (audio_channels audio_running) * (4 * unat (a_frames (audio_frame_of 2))) < 2 ^ 31 \<and>
   (\<exists>buf. audio_conv_buffer
             (fst (ndi_output_rawaudio (host_of None None) audio_running (audio_frame_of 2))) =
           Some buf \<and> buf (1 * 8 + 3) = 19)"
proof -
  let ?r = "ndi_output_rawaudio (host_of None None) audio_running (audio_frame_of 2)"
  have h: "started audio_running" "audio_samplerate audio_running \<noteq> 0"
    "audio_channels audio_running \<noteq> 0"
    "unat (audio_channels audio_running) * (4 * unat (a_frames (audio_frame_of 2))) < 2 ^ 31"
    by (simp_all add: audio_running_facts audio_frame_of_def)
  from audio_repack_amended [OF audio_running_facts(1) h, of "host_of None None"]
  have "\<forall>i < unat (audio_channels audio_running). \<forall>k < 4 * unat (a_frames (audio_frame_of 2)).
          \<exists>buf. audio_conv_buffer (fst ?r) = Some buf \<and>
                buf (i * (4 * unat (a_frames (audio_frame_of 2))) + k) = a_data (audio_frame_of 2) i k"
    by (simp split: prod.splits)
  moreover have "1 < unat (audio_channels audio_running)"
    and "3 < 4 * unat (a_frames (audio_frame_of 2))"
    by (simp_all add: audio_running_facts audio_frame_of_def)
  ultimately have "\<exists>buf. audio_conv_buffer (fst ?r) = Some buf \<and>
                buf (1 * (4 * unat (a_frames (audio_frame_of 2))) + 3) = a_data (audio_frame_of 2) 1 3"
    by blast
  then have "\<exists>buf. audio_conv_buffer (fst ?r) = Some buf \<and> buf (1 * 8 + 3) = 19"
    by (simp add: audio_frame_of_def)
  with h audio_running_facts(1) show ?thesis by simp
qed

subsection \<open>Stop\<close>

lemma create_conv_ok: "conv_ok (ndi_output_create settings out)"
  by (simp add: conv_ok_def ndi_output_create_def ndi_output_update_def bzalloc_ndi_output_def)

lemma start_switch_conv_ok:
  assumes "start_switch f w hh o' = Some (o1, cs)" and "conv_ok o'"
  shows "conv_ok o1"
  using assms by (cases f) (auto simp: Let_def conv_ok_def)

lemma start_video_block_conv_ok:
  assumes "start_video_block v o' = Some (o1, fl, cs)" and "conv_ok o'"
  shows "conv_ok o1"
proof (cases v)
  case None
  with assms show ?thesis by (simp add: start_video_block_def)
next
  case (Some x)
  show ?thesis
  proof (cases "uses_video o'")
    case False
    with assms Some show ?thesis by (simp add: start_video_block_def)
  next
    case True
    with assms(1) Some obtain o0 cs0 where
      s0: "start_switch (vo_format x) (vo_width x) (vo_height x) o' = Some (o0, cs0)" and
      o1: "o1 = o0\<lparr>frame_width := vo_width x, frame_height := vo_height x,
                     video_framerate := vo_frame_rate x\<rparr>"
      by (auto simp: start_video_block_def start_video_def Let_def split: option.splits)
    from start_switch_conv_ok [OF s0 assms(2)] o1 show ?thesis by (simp add: conv_ok_def)
  qed
qed

lemma start_audio_block_conv_ok:
  assumes "conv_ok o'"
  shows "conv_ok (fst (start_audio_block a o' flags))"
  using assms by (cases a) (simp_all add: start_audio_block_def conv_ok_def)

lemma start_sender_conv_ok:
  assumes "conv_ok o'"
  shows "conv_ok (fst (snd (start_sender h o' flags calls)))"
  using assms by (simp add: start_sender_def Let_def conv_ok_def)

lemma start_conv_ok:
  assumes "conv_ok o'"
  shows "conv_ok (fst (snd (ndi_output_start h o')))"
proof (cases "started o' \<or> (obs_output_video h = None \<and> obs_output_audio h = None)")
  case True
  with assms show ?thesis by (auto simp: ndi_output_start_def Let_def)
next
  case False
  show ?thesis
  proof (cases "start_video_block (obs_output_video h) o'")
    case None
    with False assms show ?thesis by (simp add: ndi_output_start_def Let_def)
  next
    case (Some r)
    obtain o1 fl cs where r: "r = (o1, fl, cs)" by (cases r) auto
    obtain o2 fl2 where a: "start_audio_block (obs_output_audio h) o1 fl = (o2, fl2)"
      by (cases "start_audio_block (obs_output_audio h) o1 fl") auto
    have st: "ndi_output_start h o' = start_sender h o2 fl2 cs"
      using False Some r a by (auto simp: ndi_output_start_def Let_def)
    have "conv_ok o1" using Some r assms by (auto intro: start_video_block_conv_ok)
    then have "conv_ok (fst (start_audio_block (obs_output_audio h) o1 fl))"
      by (rule start_audio_block_conv_ok)
    with a have "conv_ok o2" by simp
    then have "conv_ok (fst (snd (start_sender h o2 fl2 cs)))" by (rule start_sender_conv_ok)
    with st show ?thesis by simp
  qed
qed

lemma stop_conv_ok:
  assumes "conv_ok o'"
  shows "conv_ok (fst (ndi_output_stop o'))"
  using assms
  by (cases "ndi_sender o'"; cases "conv_buffer o'")
     (simp_all add: ndi_output_stop_def Let_def conv_ok_def)

lemma rawvideo_conv_ok:
  assumes "ndi_output_rawvideo o' frame = Some (o1, calls)" and "conv_ok o'"
  shows "conv_ok o1"
proof (cases "\<not> started o' \<or> frame_width o' = 0 \<or> frame_height o' = 0")
  case True
  with assms(1) have "o1 = o'" by (simp add: ndi_output_rawvideo_def)
  with assms(2) show ?thesis by simp
next
  case False
  show ?thesis
  proof (cases "frame_fourcc o' = NDIlib_FourCC_video_type_UYVY")
    case no: False
    with False assms(1) have "o1 = o'" by (simp add: ndi_output_rawvideo_def Let_def)
    with assms(2) show ?thesis by simp
  next
    case True
    with False assms(1) obtain accesses where
      "o1 = o'\<lparr>conv_buffer := map_option (write_back accesses) (conv_buffer o')\<rparr>"
      by (auto simp: ndi_output_rawvideo_def Let_def
            split: option.splits uyvy_conv_function.splits if_splits)
    with assms(2) show ?thesis by (simp add: conv_ok_def)
  qed
qed

lemma rawaudio_conv_fields:
  "conv_buffer (fst (ndi_output_rawaudio h o' frame)) = conv_buffer o' \<and>
   conv_function (fst (ndi_output_rawaudio h o' frame)) = conv_function o'"
proof (cases "\<not> started o' \<or> audio_samplerate o' = 0 \<or> audio_channels o' = 0")
  case True
  then have "ndi_output_rawaudio h o' frame = (o', [])" by (rule rawaudio_dropped)
  then show ?thesis by simp
next
  case False
  then show ?thesis
    by (cases "audio_conv_buffer_size o' < audio_data_size o' frame")
       (simp_all add: ndi_output_rawaudio_def audio_data_size_def Let_def)
qed

lemma step_conv_ok:
  assumes "step e o' = Some (o1, calls)" and "conv_ok o'"
  shows "conv_ok o1"
proof (cases e)
  case (Update settings)
  with assms show ?thesis by (auto simp: conv_ok_def ndi_output_update_def)
next
  case (Start h)
  with assms(1) have "o1 = fst (snd (ndi_output_start h o'))" by (auto split: prod.splits)
  with start_conv_ok [OF assms(2)] show ?thesis by simp
next
  case Stop
  with assms(1) have "o1 = fst (ndi_output_stop o')" by auto
  with stop_conv_ok [OF assms(2)] show ?thesis by simp
next
  case (Raw_video frame)
  with assms(1) have "ndi_output_rawvideo o' frame = Some (o1, calls)" by simp
  then show ?thesis using assms(2) by (rule rawvideo_conv_ok)
next
  case (Raw_audio h frame)
  with assms(1) have "o1 = fst (ndi_output_rawaudio h o' frame)" by auto
  with rawaudio_conv_fields [of h o' frame] assms(2) show ?thesis by (simp add: conv_ok_def)
qed

lemma run_conv_ok:
  assumes "run evs o' = Some o1" and "conv_ok o'"
  shows "conv_ok o1"
  using assms
proof (induction evs arbitrary: o')
  case Nil
  then show ?case by simp
next
  case (Cons e evs)
  from Cons.prems(1) obtain o2 calls where
    s: "step e o' = Some (o2, calls)" and r: "run evs o2 = Some o1"
    by (cases "step e o'") auto
  from s Cons.prems(2) have "conv_ok o2" by (rule step_conv_ok)
  with r show ?case by (rule Cons.IH)
qed

text \<open>
  \<^bold>\<open>C5\<close> as stated fails. After start on a planar 4:4:4 video 4 wide and stop, the
  pixel code is still UYVY and the stride of the conversion buffer is still 8: stop
  does not touch these two fields of the negotiated video state.
\<close>

theorem stop_counterexample:
  "started (started_with (host_of (Some (video_4x2 VIDEO_FORMAT_I444 (Double 30 0))) (Some audio_stereo))
              ndi_output_getdefaults) \<and>
   \<not> stop_claim (started_with (host_of (Some (video_4x2 VIDEO_FORMAT_I444 (Double 30 0))) (Some audio_stereo))
              ndi_output_getdefaults) \<and>
   frame_fourcc (fst (ndi_output_stop
       (started_with (host_of (Some (video_4x2 VIDEO_FORMAT_I444 (Double 30 0))) (Some audio_stereo))
              ndi_output_getdefaults))) = NDIlib_FourCC_video_type_UYVY \<and>
   conv_linesize (fst (ndi_output_stop
       (started_with (host_of (Some (video_4x2 VIDEO_FORMAT_I444 (Double 30 0))) (Some audio_stereo))
              ndi_output_getdefaults))) = 8"
  by (simp add: stop_claim_def start_eval ndi_output_stop_def)

text \<open>
  \<^bold>\<open>C5\<close>, amended. After stop on a running instance the instance is not started, the
  sender handle and the conversion buffer are null, \<^verbatim>\<open>frame_width\<close>, \<^verbatim>\<open>frame_height\<close>,
  \<^verbatim>\<open>video_framerate\<close>, \<^verbatim>\<open>audio_channels\<close> and \<^verbatim>\<open>audio_samplerate\<close> are zero,
  \<^verbatim>\<open>frame_fourcc\<close> and \<^verbatim>\<open>conv_linesize\<close> keep their values, and the audio buffer and
  its recorded size are those from before the stop. The conversion function is null
  if there was a conversion buffer before the stop and keeps its value otherwise; it
  is null in either case for every instance reached from create by a sequence of
  callbacks, since such an instance has no conversion function without a buffer.
\<close>

theorem stop_amended:
  assumes "started o'"
  shows "(case ndi_output_stop o' of
            (o1, calls) \<Rightarrow>
              \<not> started o1 \<and> ndi_sender o1 = None \<and> conv_buffer o1 = None \<and>
              frame_width o1 = 0 \<and> frame_height o1 = 0 \<and> video_framerate o1 = Double 0 0 \<and>
              audio_channels o1 = 0 \<and> audio_samplerate o1 = 0 \<and>
              frame_fourcc o1 = frame_fourcc o' \<and> conv_linesize o1 = conv_linesize o' \<and>
              conv_function o1 = (if conv_buffer o' = None then conv_function o' else None) \<and>
              ((\<exists>evs settings out. run evs (ndi_output_create settings out) = Some o') \<longrightarrow>
                 conv_function o1 = None) \<and>
              audio_conv_buffer o1 = audio_conv_buffer o' \<and>
              audio_conv_buffer_size o1 = audio_conv_buffer_size o')"
proof -
  have reach: "conv_function o' = None"
    if "\<exists>evs settings out. run evs (ndi_output_create settings out) = Some o'"
       and "conv_buffer o' = None"
  proof -
    from that(1) obtain evs settings out where
      "run evs (ndi_output_create settings out) = Some o'" by blast
    then have "conv_ok o'" using create_conv_ok by (rule run_conv_ok)
    with that(2) show ?thesis by (simp add: conv_ok_def)
  qed
  show ?thesis
    using assms reach
    by (cases "ndi_sender o'"; cases "conv_buffer o'") (simp_all add: ndi_output_stop_def Let_def)
qed

theorem stop_amended_witness:
  "run [Start (host_of (Some (video_4x2 VIDEO_FORMAT_I444 (Double 30 0))) (Some audio_stereo))]
       (ndi_output_create ndi_output_getdefaults 0) =
     Some (started_with (host_of (Some (video_4x2 VIDEO_FORMAT_I444 (Double 30 0))) (Some audio_stereo))
              ndi_output_getdefaults) \<and>
   started (started_with (host_of (Some (video_4x2 VIDEO_FORMAT_I444 (Double 30 0))) (Some audio_stereo))
              ndi_output_getdefaults) \<and>
   conv_function (started_with (host_of (Some (video_4x2 VIDEO_FORMAT_I444 (Double 30 0))) (Some audio_stereo))
              ndi_output_getdefaults) = Some Convert_i444_to_uyvy \<and>
   (case ndi_output_stop
           (started_with (host_of (Some (video_4x2 VIDEO_FORMAT_I444 (Double 30 0))) (Some audio_stereo))
              ndi_output_getdefaults) of
      (o1, calls) \<Rightarrow>
        \<not> started o1 \<and> ndi_sender o1 = None \<and> conv_buffer o1 = None \<and>
        frame_width o1 = 0 \<and> frame_height o1 = 0 \<and> video_framerate o1 = Double 0 0 \<and>
        audio_channels o1 = 0 \<and> audio_samplerate o1 = 0 \<and>
        frame_fourcc o1 = NDIlib_FourCC_video_type_UYVY \<and> conv_linesize o1 = 8 \<and>
        conv_function o1 = None \<and>
        audio_conv_buffer o1 = None \<and> audio_conv_buffer_size o1 = 0)"
proof -
  let ?h = "host_of (Some (video_4x2 VIDEO_FORMAT_I444 (Double 30 0))) (Some audio_stereo)"
  let ?o = "started_with ?h ndi_output_getdefaults"
  have r: "run [Start ?h] (ndi_output_create ndi_output_getdefaults 0) = Some ?o"
    by (simp add: started_with_def split: prod.splits)
  then have e: "\<exists>evs settings out. run evs (ndi_output_create settings out) = Some ?o" by blast
  have s: "started ?o" by (simp add: start_eval)
  have f: "frame_fourcc ?o = NDIlib_FourCC_video_type_UYVY" "conv_linesize ?o = 8"
    "conv_function ?o = Some Convert_i444_to_uyvy"
    "audio_conv_buffer ?o = None" "audio_conv_buffer_size ?o = 0"
    by (simp_all add: start_eval)
  obtain o1 calls where st: "ndi_output_stop ?o = (o1, calls)" by (cases "ndi_output_stop ?o") auto
  from stop_amended [OF s]
  have all:
    "\<not> started o1 \<and> ndi_sender o1 = None \<and> conv_buffer o1 = None \<and>
     frame_width o1 = 0 \<and> frame_height o1 = 0 \<and> video_framerate o1 = Double 0 0 \<and>
     audio_channels o1 = 0 \<and> audio_samplerate o1 = 0 \<and>
     frame_fourcc o1 = frame_fourcc ?o \<and> conv_linesize o1 = conv_linesize ?o \<and>
     conv_function o1 = (if conv_buffer ?o = None then conv_function ?o else None) \<and>
     ((\<exists>evs settings out. run evs (ndi_output_create settings out) = Some ?o) \<longrightarrow>
        conv_function o1 = None) \<and>
     audio_conv_buffer o1 = audio_conv_buffer ?o \<and>
     audio_conv_buffer_size o1 = audio_conv_buffer_size ?o"
    unfolding st prod.case .
  then have
    a: "\<not> started o1 \<and> ndi_sender o1 = None \<and> conv_buffer o1 = None \<and>
        frame_width o1 = 0 \<and> frame_height o1 = 0 \<and> video_framerate o1 = Double 0 0 \<and>
        audio_channels o1 = 0 \<and> audio_samplerate o1 = 0 \<and>
        frame_fourcc o1 = frame_fourcc ?o \<and> conv_linesize o1 = conv_linesize ?o" and
    b: "(\<exists>evs settings out. run evs (ndi_output_create settings out) = Some ?o) \<longrightarrow>
          conv_function o1 = None" and
    c: "audio_conv_buffer o1 = audio_conv_buffer ?o \<and>
        audio_conv_buffer_size o1 = audio_conv_buffer_size ?o"
    by blast+
  from b e have "conv_function o1 = None" by (rule mp)
  with a c f have "\<not> started o1 \<and> ndi_sender o1 = None \<and> conv_buffer o1 = None \<and>
        frame_width o1 = 0 \<and> frame_height o1 = 0 \<and> video_framerate o1 = Double 0 0 \<and>
        audio_channels o1 = 0 \<and> audio_samplerate o1 = 0 \<and>
        frame_fourcc o1 = NDIlib_FourCC_video_type_UYVY \<and> conv_linesize o1 = 8 \<and>
        conv_function o1 = None \<and>
        audio_conv_buffer o1 = None \<and> audio_conv_buffer_size o1 = 0"
    by simp
  with r s f(3) st show ?thesis by simp
qed

subsection \<open>The capacity of the audio buffer\<close>

lemma run_append:
  "run (xs @ ys) o' = (case run xs o' of None \<Rightarrow> None | Some o1 \<Rightarrow> run ys o1)"
proof (induction xs arbitrary: o')
  case Nil
  show ?case by simp
next
  case (Cons e xs)
  show ?case
  proof (cases "step e o'")
    case None
    then show ?thesis by simp
  next
    case (Some r)
    obtain o1 calls where "r = (o1, calls)" by (cases r) auto
    with Some Cons.IH [of o1] show ?thesis by simp
  qed
qed

lemma audio_sizes_append:
  "audio_sizes (xs @ ys) o' =
     audio_sizes xs o' @ (case run xs o' of None \<Rightarrow> [] | Some o1 \<Rightarrow> audio_sizes ys o1)"
proof (induction xs arbitrary: o')
  case Nil
  show ?case by simp
next
  case (Cons e xs)
  show ?case
  proof (cases "step e o'")
    case None
    then show ?thesis by simp
  next
    case (Some r)
    obtain o1 calls where "r = (o1, calls)" by (cases r) auto
    with Some Cons.IH [of o1] show ?thesis by simp
  qed
qed

lemma update_audio_fields:
  "audio_conv_buffer_size (ndi_output_update o' settings) = audio_conv_buffer_size o'"
  by (simp add: ndi_output_update_def)

lemma rawaudio_size:
  "audio_conv_buffer_size (fst (ndi_output_rawaudio h o' frame)) =
     (if started o' \<and> audio_samplerate o' \<noteq> 0 \<and> audio_channels o' \<noteq> 0 \<and>
         audio_conv_buffer_size o' < audio_data_size o' frame
      then audio_data_size o' frame else audio_conv_buffer_size o')"
proof (cases "\<not> started o' \<or> audio_samplerate o' = 0 \<or> audio_channels o' = 0")
  case True
  then have "ndi_output_rawaudio h o' frame = (o', [])" by (rule rawaudio_dropped)
  with True show ?thesis by auto
next
  case False
  then have p: "started o'" "audio_samplerate o' \<noteq> 0" "audio_channels o' \<noteq> 0" by simp_all
  show ?thesis
  proof (cases "audio_conv_buffer_size o' < audio_data_size o' frame")
    case True
    with p rawaudio_grow [OF p True, of h] show ?thesis by simp
  next
    case False
    with p rawaudio_keep [OF p False, of h] show ?thesis by simp
  qed
qed

lemma step_size:
  assumes "step e o' = Some (o1, calls)"
  shows "audio_conv_buffer_size o1 =
     (case e of
        Raw_audio h frame \<Rightarrow>
          if started o' \<and> audio_samplerate o' \<noteq> 0 \<and> audio_channels o' \<noteq> 0 \<and>
             audio_conv_buffer_size o' < audio_data_size o' frame
          then audio_data_size o' frame else audio_conv_buffer_size o'
      | _ \<Rightarrow> audio_conv_buffer_size o')"
proof (cases e)
  case (Update settings)
  with assms show ?thesis by (auto simp: update_audio_fields)
next
  case (Start h)
  with assms have "o1 = fst (snd (ndi_output_start h o'))" by (auto split: prod.splits)
  with start_audio_fields [of h o'] Start show ?thesis by simp
next
  case Stop
  with assms have "o1 = fst (ndi_output_stop o')" by auto
  with stop_audio_fields [of o'] Stop show ?thesis by simp
next
  case (Raw_video frame)
  with assms have "ndi_output_rawvideo o' frame = Some (o1, calls)" by simp
  from rawvideo_audio_fields [OF this] Raw_video show ?thesis by simp
next
  case (Raw_audio h frame)
  with assms have "o1 = fst (ndi_output_rawaudio h o' frame)" by auto
  with rawaudio_size [of h o' frame] Raw_audio show ?thesis by simp
qed

lemma step_size_mono:
  assumes "step e o' = Some (o1, calls)"
  shows "audio_conv_buffer_size o' \<le> audio_conv_buffer_size o1"
  using step_size [OF assms] by (cases e) (auto simp: less_imp_le)

lemma run_size_mono:
  assumes "run evs o' = Some o1"
  shows "audio_conv_buffer_size o' \<le> audio_conv_buffer_size o1"
  using assms
proof (induction evs arbitrary: o')
  case Nil
  then show ?case by simp
next
  case (Cons e evs)
  from Cons.prems obtain o2 calls where
    s: "step e o' = Some (o2, calls)" and r: "run evs o2 = Some o1"
    by (cases "step e o'") auto
  from step_size_mono [OF s] Cons.IH [OF r] show ?case by (rule order_trans)
qed

lemma audio_data_size_exact:
  assumes "audio_channels o' \<noteq> 0"
    and "unat (audio_channels o') * 4 * unat (a_frames frame) < 2 ^ 31"
  shows "unat (audio_data_size o' frame) = unat (audio_channels o') * 4 * unat (a_frames frame)"
proof (cases "unat (a_frames frame) = 0")
  case True
  then have "a_frames frame = 0" by (simp add: unat_eq_0)
  then show ?thesis by (simp add: audio_data_size_def)
next
  case False
  then have f: "0 < unat (a_frames frame)" by simp
  from assms(2) have lim: "unat (audio_channels o') * (4 * unat (a_frames frame)) < 2 ^ 31"
    by (simp only: mult.assoc)
  from audio_sizes_exact(3) [OF lim f assms(1)] show ?thesis
    by (simp only: audio_data_size_def mult.assoc)
qed

lemma step_size_max:
  assumes "step e o' = Some (o1, calls)"
    and "\<forall>n \<in> set (audio_sizes [e] o'). n < 2 ^ 31"
  shows "unat (audio_conv_buffer_size o1) =
           fold max (audio_sizes [e] o') (unat (audio_conv_buffer_size o'))"
proof (cases e)
  case (Raw_audio h frame)
  show ?thesis
  proof (cases "started o' \<and> audio_samplerate o' \<noteq> 0 \<and> audio_channels o' \<noteq> 0")
    case False
    with step_size [OF assms(1)] Raw_audio assms(1) show ?thesis by auto
  next
    case True
    let ?n = "unat (audio_channels o') * 4 * unat (a_frames frame)"
    from True Raw_audio assms have lim: "?n < 2 ^ 31" by simp
    from True have "audio_channels o' \<noteq> 0" by simp
    then have ds: "unat (audio_data_size o' frame) = ?n" using lim by (rule audio_data_size_exact)
    have sz: "audio_sizes [e] o' = [?n]" using True Raw_audio assms(1) by simp
    have "unat (audio_conv_buffer_size o1) = max ?n (unat (audio_conv_buffer_size o'))"
      using step_size [OF assms(1)] True Raw_audio ds
      by (auto simp: word_less_nat_alt max_def)
    then show ?thesis by (simp only: sz) simp
  qed
qed (use step_size [OF assms(1)] assms(1) in \<open>auto split: prod.splits\<close>)

lemma run_size_max:
  assumes "run evs o' = Some o1"
    and "\<forall>n \<in> set (audio_sizes evs o'). n < 2 ^ 31"
  shows "unat (audio_conv_buffer_size o1) =
           fold max (audio_sizes evs o') (unat (audio_conv_buffer_size o'))"
  using assms
proof (induction evs arbitrary: o')
  case Nil
  then show ?case by simp
next
  case (Cons e evs)
  from Cons.prems(1) obtain o2 calls where
    s: "step e o' = Some (o2, calls)" and r: "run evs o2 = Some o1"
    by (cases "step e o'") auto
  have split: "audio_sizes (e # evs) o' = audio_sizes [e] o' @ audio_sizes evs o2"
    using s by simp
  from Cons.prems(2) have a: "\<forall>n \<in> set (audio_sizes [e] o'). n < 2 ^ 31"
    and b: "\<forall>n \<in> set (audio_sizes evs o2). n < 2 ^ 31"
    unfolding split by auto
  from step_size_max [OF s a] Cons.IH [OF r b] show ?case
    by (simp only: split fold_append comp_def)
qed

lemma rawaudio_keep_calls:
  assumes "started o'" and "audio_samplerate o' \<noteq> 0" and "audio_channels o' \<noteq> 0"
    and "\<not> audio_conv_buffer_size o' < audio_data_size o' frame"
  shows "\<not> list_ex is_alloc (snd (ndi_output_rawaudio h o' frame))"
  using assms by (simp add: ndi_output_rawaudio_def audio_data_size_def Let_def)

text \<open>
  \<^bold>\<open>C6\<close>, amended. Take any sequence of callbacks on an instance since its create, cut
  anywhere into a first part and a rest. The capacity of the audio buffer after the
  first part is at most the capacity after the whole sequence: it never decreases.
  If every audio frame the sequence processes (one delivered while started, with a
  non-zero sample rate and channel count) has \<open>channels * 4 * frames < 2^31\<close>, then the
  capacity after the first part, and after the whole, is the maximum of
  \<open>channels * 4 * frames\<close> over the frames processed so far (0 if there is none). And
  a frame processed next with \<open>channels * 4 * frames < 2^31\<close> and no more than the
  capacity makes no \<^verbatim>\<open>bmalloc\<close> or \<^verbatim>\<open>bfree\<close> call and leaves the capacity as it is.
\<close>

theorem audio_scratch_amended:
  assumes "run (evs1 @ evs2) (ndi_output_create settings out) = Some o2"
  shows "(\<exists>o1. run evs1 (ndi_output_create settings out) = Some o1 \<and>
               audio_conv_buffer_size o1 \<le> audio_conv_buffer_size o2 \<and>
               ((\<forall>n \<in> set (audio_sizes (evs1 @ evs2) (ndi_output_create settings out)). n < 2 ^ 31) \<longrightarrow>
                  unat (audio_conv_buffer_size o1) =
                    Max (set (0 # audio_sizes evs1 (ndi_output_create settings out))) \<and>
                  unat (audio_conv_buffer_size o2) =
                    Max (set (0 # audio_sizes (evs1 @ evs2) (ndi_output_create settings out))))) \<and>
         (\<forall>h frame.
            started o2 \<and> audio_samplerate o2 \<noteq> 0 \<and> audio_channels o2 \<noteq> 0 \<and>
            unat (audio_channels o2) * 4 * unat (a_frames frame) < 2 ^ 31 \<and>
            unat (audio_channels o2) * 4 * unat (a_frames frame) \<le> unat (audio_conv_buffer_size o2) \<longrightarrow>
              audio_conv_buffer_size (fst (ndi_output_rawaudio h o2 frame)) = audio_conv_buffer_size o2 \<and>
              \<not> list_ex is_alloc (snd (ndi_output_rawaudio h o2 frame)))"
proof -
  let ?c = "ndi_output_create settings out"
  from assms obtain o1 where r1: "run evs1 ?c = Some o1" and r2: "run evs2 o1 = Some o2"
    by (auto simp: run_append split: option.splits)
  have mono: "audio_conv_buffer_size o1 \<le> audio_conv_buffer_size o2"
    using r2 by (rule run_size_mono)
  have c0: "unat (audio_conv_buffer_size ?c) = 0"
    by (simp add: ndi_output_create_def ndi_output_update_def bzalloc_ndi_output_def)
  have sizes: "unat (audio_conv_buffer_size o1) = Max (set (0 # audio_sizes evs1 ?c)) \<and>
      unat (audio_conv_buffer_size o2) = Max (set (0 # audio_sizes (evs1 @ evs2) ?c))"
    if all: "\<forall>n \<in> set (audio_sizes (evs1 @ evs2) ?c). n < 2 ^ 31"
  proof -
    from all have a1: "\<forall>n \<in> set (audio_sizes evs1 ?c). n < 2 ^ 31"
      by (simp add: audio_sizes_append)
    from run_size_max [OF r1 a1] run_size_max [OF assms all] show ?thesis
      by (simp only: c0 Max.set_eq_fold)
  qed
  have keep: "audio_conv_buffer_size (fst (ndi_output_rawaudio h o2 frame)) = audio_conv_buffer_size o2 \<and>
      \<not> list_ex is_alloc (snd (ndi_output_rawaudio h o2 frame))"
    if p: "started o2" "audio_samplerate o2 \<noteq> 0" "audio_channels o2 \<noteq> 0"
      and lim: "unat (audio_channels o2) * 4 * unat (a_frames frame) < 2 ^ 31"
      and le: "unat (audio_channels o2) * 4 * unat (a_frames frame) \<le> unat (audio_conv_buffer_size o2)"
    for h frame
  proof -
    have "unat (audio_data_size o2 frame) = unat (audio_channels o2) * 4 * unat (a_frames frame)"
      using p(3) lim by (rule audio_data_size_exact)
    with le have n: "\<not> audio_conv_buffer_size o2 < audio_data_size o2 frame"
      by (simp add: word_less_nat_alt)
    from rawaudio_keep [OF p n, of h] rawaudio_keep_calls [OF p n, of h] show ?thesis by simp
  qed
  from r1 mono sizes keep show ?thesis by blast
qed

lemma s4_eval:
  "audio_sizes (s4_start @ [Raw_audio s4_host (audio_frame_of 2048)])
       (ndi_output_create ndi_output_getdefaults 0) = [8192, 4096, 16384]"
  "audio_sizes s4_start (ndi_output_create ndi_output_getdefaults 0) = [8192, 4096]"
  "run (s4_start @ [Raw_audio s4_host (audio_frame_of 2048)])
       (ndi_output_create ndi_output_getdefaults 0) \<noteq> None"
  by (simp_all add: s4_start_def s4_host_def start_eval audio_frame_of_def ndi_output_rawaudio_def
        Let_def split: prod.splits)

theorem audio_scratch_amended_witness:
  "run (s4_start @ [Raw_audio s4_host (audio_frame_of 2048)])
       (ndi_output_create ndi_output_getdefaults 0) \<noteq> None \<and>
   list_all (\<lambda>n. n < 2 ^ 31)
     (audio_sizes (s4_start @ [Raw_audio s4_host (audio_frame_of 2048)])
        (ndi_output_create ndi_output_getdefaults 0)) \<and>
   map_option (\<lambda>o1. unat (audio_conv_buffer_size o1))
     (run s4_start (ndi_output_create ndi_output_getdefaults 0)) = Some 8192 \<and>
   map_option (\<lambda>o2. unat (audio_conv_buffer_size o2))
     (run (s4_start @ [Raw_audio s4_host (audio_frame_of 2048)])
        (ndi_output_create ndi_output_getdefaults 0)) = Some 16384"
proof -
  let ?c = "ndi_output_create ndi_output_getdefaults 0"
  let ?e2 = "[Raw_audio s4_host (audio_frame_of 2048)]"
  from s4_eval(3) obtain o2 where r: "run (s4_start @ ?e2) ?c = Some o2" by blast
  have all: "\<forall>n \<in> set (audio_sizes (s4_start @ ?e2) ?c). n < 2 ^ 31"
    by (simp only: s4_eval(1)) simp
  from audio_scratch_amended [OF r] obtain o1 where
    r1: "run s4_start ?c = Some o1" and
    imp: "(\<forall>n \<in> set (audio_sizes (s4_start @ ?e2) ?c). n < 2 ^ 31) \<longrightarrow>
            unat (audio_conv_buffer_size o1) = Max (set (0 # audio_sizes s4_start ?c)) \<and>
            unat (audio_conv_buffer_size o2) = Max (set (0 # audio_sizes (s4_start @ ?e2) ?c))"
    by blast
  from imp all have
    "unat (audio_conv_buffer_size o1) = Max (set (0 # audio_sizes s4_start ?c))"
    "unat (audio_conv_buffer_size o2) = Max (set (0 # audio_sizes (s4_start @ ?e2) ?c))"
    by blast+
  then have "unat (audio_conv_buffer_size o1) = 8192" "unat (audio_conv_buffer_size o2) = 16384"
    by (simp_all only: s4_eval(1,2)) simp_all
  moreover have "list_all (\<lambda>n. n < 2 ^ 31) (audio_sizes (s4_start @ ?e2) ?c)"
    by (simp only: s4_eval(1)) simp
  ultimately show ?thesis using r r1 by simp
qed

text \<open>
  \<^bold>\<open>C6\<close> as stated fails. A running stereo instance processes a frame of 1024 samples
  and then one of \<open>2^30\<close> samples, for which \<open>channels * 4 * frames\<close> is \<open>2^33\<close>; but
  \<^verbatim>\<open>frame->frames * 4\<close> wraps to 0 in 32 bits, the required size is 0, nothing is
  allocated and the capacity stays 8192.
\<close>

theorem audio_scratch_counterexample:
  "\<not> scratch_claim [Start s4_host, Raw_audio s4_host (audio_frame_of 1024),
                     Raw_audio s4_host (audio_frame_of 1073741824)]
        (ndi_output_create ndi_output_getdefaults 0) \<and>
   audio_sizes [Start s4_host, Raw_audio s4_host (audio_frame_of 1024),
                Raw_audio s4_host (audio_frame_of 1073741824)]
        (ndi_output_create ndi_output_getdefaults 0) = [8192, 8589934592] \<and>
   map_option (\<lambda>o1. unat (audio_conv_buffer_size o1))
     (run [Start s4_host, Raw_audio s4_host (audio_frame_of 1024),
           Raw_audio s4_host (audio_frame_of 1073741824)]
        (ndi_output_create ndi_output_getdefaults 0)) = Some 8192"
  by (simp add: scratch_claim_def s4_host_def start_eval audio_frame_of_def ndi_output_rawaudio_def
        copy_channels.simps memcpy_def word_sless_alt Let_def split: prod.splits)

subsection \<open>The frame rate of a video frame\<close>

text \<open>
  The rounding of \<open>round_to_double\<close> is to nearest: a value that fits is returned as
  it is, and otherwise the magnitude kept, \<open>q' * 2 ^ k\<close>, differs from \<open>\<bar>M\<bar>\<close> by at
  most half of \<open>2 ^ k\<close>, the unit of the last bit kept.
\<close>

lemma round_step_near:
  fixes a :: int
  assumes "0 < k"
  defines "q \<equiv> a div 2 ^ nat k" and "r \<equiv> a mod 2 ^ nat k" and "h \<equiv> (2::int) ^ nat (k - 1)"
  shows "2 * \<bar>(if h < r \<or> (r = h \<and> odd q) then q + 1 else q) * 2 ^ nat k - a\<bar> \<le> 2 ^ nat k"
proof -
  have d: "(2::int) ^ nat k = 2 * h"
  proof -
    from assms(1) have "nat k = Suc (nat (k - 1))" by simp
    then show ?thesis unfolding h_def by (simp only: power_Suc)
  qed
  have "a = a div 2 ^ nat k * 2 ^ nat k + a mod 2 ^ nat k" by (simp only: div_mult_mod_eq)
  then have a: "a = q * (2 * h) + r" unfolding q_def r_def d .
  have hpos: "0 < h" unfolding h_def by simp
  have r: "0 \<le> r" "r < 2 * h" unfolding r_def d [symmetric] by simp_all
  show ?thesis
  proof (cases "h < r \<or> (r = h \<and> odd q)")
    case True
    then have c: "(if h < r \<or> (r = h \<and> odd q) then q + 1 else q) = q + 1" by (simp only: if_True)
    from True have "h \<le> r" by auto
    have "(q + 1) * (2 * h) - a = 2 * h - r" using a by (simp add: algebra_simps)
    then have "\<bar>(q + 1) * (2 * h) - a\<bar> \<le> h" using r \<open>h \<le> r\<close> by linarith
    then show ?thesis unfolding c d by simp
  next
    case False
    then have c: "(if h < r \<or> (r = h \<and> odd q) then q + 1 else q) = q" by (simp only: if_False)
    from False have "r \<le> h" by auto
    have "q * (2 * h) - a = - r" using a by simp
    then have "\<bar>q * (2 * h) - a\<bar> \<le> h" using r \<open>r \<le> h\<close> by linarith
    then show ?thesis unfolding c d by simp
  qed
qed

lemma round_to_double_exact:
  assumes "max (bitlen \<bar>M\<bar> - 53) (- 1074 - E) \<le> 0"
  shows "round_to_double M E = Double M E"
  using assms by (simp only: round_to_double_def Let_def if_True)

lemma round_to_double_nearest:
  assumes "k = max (bitlen \<bar>M\<bar> - 53) (- 1074 - E)" and "0 < k"
  shows "\<exists>q'. round_to_double M E = Double (sgn M * q') (E + k) \<and>
              2 * \<bar>q' * 2 ^ nat k - \<bar>M\<bar>\<bar> \<le> 2 ^ nat k"
proof -
  let ?q = "\<bar>M\<bar> div 2 ^ nat k" and ?r = "\<bar>M\<bar> mod 2 ^ nat k" and ?h = "(2::int) ^ nat (k - 1)"
  let ?q' = "if ?h < ?r \<or> (?r = ?h \<and> odd ?q) then ?q + 1 else ?q"
  from assms(2) have nk: "\<not> k \<le> 0" by simp
  have e: "round_to_double M E = Double (sgn M * ?q') (E + k)"
    unfolding round_to_double_def Let_def assms(1) [symmetric] using nk by (simp only: if_False)
  have n: "2 * \<bar>?q' * 2 ^ nat k - \<bar>M\<bar>\<bar> \<le> 2 ^ nat k"
    using assms(2) by (rule round_step_near)
  from e n show ?thesis by blast
qed

text \<open>
  The cast \<^verbatim>\<open>(int)\<close> of a double within the \<^verbatim>\<open>int\<close> range discards the fraction: the
  floor of a value that is not negative, the ceiling of a negative one.
\<close>

lemma double_to_int_trunc:
  assumes "- (2 ^ 31) - 1 < dval d" and "dval d < 2 ^ 31"
  shows "double_to_int d = (if 0 \<le> dval d then \<lfloor>dval d\<rfloor> else \<lceil>dval d\<rceil>)"
proof (cases d)
  case (Double m e)
  let ?t = "if 0 \<le> e then m * 2 ^ nat e else sgn m * (\<bar>m\<bar> div 2 ^ nat (- e))"
  let ?v = "dval d"
  have t: "?t = (if 0 \<le> ?v then \<lfloor>?v\<rfloor> else \<lceil>?v\<rceil>)"
  proof (cases "0 \<le> e")
    case True
    define z where "z = m * 2 ^ nat e"
    have "?v = of_int z" using True Double by (simp add: power_int_def z_def)
    then have "\<lfloor>?v\<rfloor> = z" "\<lceil>?v\<rceil> = z" by (simp_all only: floor_of_int ceiling_of_int)
    then show ?thesis using True by (simp only: z_def if_True if_cancel)
  next
    case False
    let ?n = "nat (- e)"
    have v: "?v = of_int m / of_int (2 ^ ?n)"
      using False Double by (simp add: power_int_def field_simps)
    show ?thesis
    proof (cases "0 \<le> m")
      case True
      then have "0 \<le> ?v" using v by simp
      moreover have "\<lfloor>?v\<rfloor> = m div 2 ^ ?n" unfolding v by (rule floor_divide_of_int_eq)
      moreover have "sgn m * (\<bar>m\<bar> div 2 ^ ?n) = m div 2 ^ ?n"
        using True by (cases "m = 0") (simp_all add: sgn_if)
      ultimately show ?thesis using False by simp
    next
      case neg: False
      then have "?v < 0" using v by (simp add: divide_neg_pos)
      moreover have "\<lceil>?v\<rceil> = - ((- m) div 2 ^ ?n)"
      proof -
        have "- ?v = of_int (- m) / of_int (2 ^ ?n)" using v by simp
        then have "\<lfloor>- ?v\<rfloor> = (- m) div 2 ^ ?n" by (simp only: floor_divide_of_int_eq)
        then show ?thesis by (simp add: ceiling_def)
      qed
      moreover have "sgn m * (\<bar>m\<bar> div 2 ^ ?n) = - ((- m) div 2 ^ ?n)"
        using neg by (simp add: sgn_if)
      ultimately show ?thesis using False by simp
    qed
  qed
  have range: "- (2 ^ 31) \<le> ?t \<and> ?t < 2 ^ 31"
  proof (cases "0 \<le> ?v")
    case True
    with t have e: "?t = \<lfloor>?v\<rfloor>" by simp
    have "(0::int) \<le> \<lfloor>?v\<rfloor>" using True by simp
    moreover have "\<lfloor>?v\<rfloor> < 2 ^ 31" using assms(2) by (simp add: floor_less_iff)
    ultimately show ?thesis unfolding e by simp
  next
    case False
    with t have e: "?t = \<lceil>?v\<rceil>" by simp
    have "\<lceil>?v\<rceil> \<le> 0" using False by (simp add: ceiling_le_iff)
    moreover have "- (2 ^ 31) - 1 < \<lceil>?v\<rceil>" using assms(1) by (simp add: less_ceiling_iff)
    ultimately show ?thesis unfolding e by simp
  qed
  have "double_to_int d = ?t" using range Double by (simp add: Let_def)
  with t show ?thesis by simp
qed

text \<open>
  The two rates: the product of the double 29.97 and 100 rounds to the double 2997
  exactly; the product of the double 24000/1001 and 100 is below 2397.61, and the
  cast drops the fraction.
\<close>

lemma rate_29_97_numerator:
  "double_to_int (double_mul rate_29_97 (double_of_int 100)) = 2997"
  by code_simp

lemma rate_24000_1001_numerator:
  "double_to_int (double_mul rate_24000_1001 (double_of_int 100)) = 2397"
  by code_simp

lemma rate_24000_1001_round: "round (dval rate_24000_1001 * 100) = 2398"
  by (simp add: rate_24000_1001_def round_def power_int_minus)

text \<open>
  A frame delivered to a running instance with a non-zero frame size is sent, on
  either path (converted or passed through), with one call and the rate of the
  instance.
\<close>

lemma rawvideo_sent:
  assumes "started o'" and "frame_width o' \<noteq> 0" and "frame_height o' \<noteq> 0"
    and "ndi_output_rawvideo o' frame = Some (o1, calls)"
  shows "\<exists>vf. calls = [Send_send_video_async_v2 (ndi_sender o') vf] \<and>
              frame_rate_D vf = 100 \<and>
              frame_rate_N vf = double_to_int (double_mul (video_framerate o') (double_of_int 100))"
proof (cases "frame_fourcc o' = NDIlib_FourCC_video_type_UYVY")
  case False
  with assms show ?thesis by (auto simp: ndi_output_rawvideo_def Let_def)
next
  case True
  with assms show ?thesis
    by (auto simp: ndi_output_rawvideo_def Let_def
          split: option.splits uyvy_conv_function.splits if_splits)
qed

text \<open>
  \<^bold>\<open>C4\<close>, amended. When \<^verbatim>\<open>ndi_output_rawvideo\<close> returns for a frame delivered to a
  started instance with a non-zero frame width and height, it has made exactly one
  call, the asynchronous video send to the sender of the instance, and the
  descriptor sent has the frame rate denominator 100 and the numerator
  \<^verbatim>\<open>(int)(video_framerate * 100)\<close>: the cast of the double product \<open>p\<close> of the
  negotiated rate and 100. That is the floor of \<open>p\<close> when \<open>0 \<le> p < 2^31\<close> and the
  ceiling of \<open>p\<close> when \<open>- 2^31 - 1 < p < 0\<close>: the fraction is discarded, the product
  is not rounded to the nearest integer. For the double nearest to 29.97 the
  numerator is 2997, and for the double nearest to 24000/1001 it is 2397.
\<close>

theorem frame_rate_amended:
  assumes "started o'" and "frame_width o' \<noteq> 0" and "frame_height o' \<noteq> 0"
    and "ndi_output_rawvideo o' frame = Some (o1, calls)"
  shows "\<exists>vf. calls = [Send_send_video_async_v2 (ndi_sender o') vf] \<and>
              frame_rate_D vf = 100 \<and>
              frame_rate_N vf = double_to_int (double_mul (video_framerate o') (double_of_int 100)) \<and>
              (0 \<le> dval (double_mul (video_framerate o') (double_of_int 100)) \<and>
               dval (double_mul (video_framerate o') (double_of_int 100)) < 2 ^ 31 \<longrightarrow>
                 frame_rate_N vf = \<lfloor>dval (double_mul (video_framerate o') (double_of_int 100))\<rfloor>) \<and>
              (- (2 ^ 31) - 1 < dval (double_mul (video_framerate o') (double_of_int 100)) \<and>
               dval (double_mul (video_framerate o') (double_of_int 100)) < 0 \<longrightarrow>
                 frame_rate_N vf = \<lceil>dval (double_mul (video_framerate o') (double_of_int 100))\<rceil>) \<and>
              (video_framerate o' = rate_29_97 \<longrightarrow> frame_rate_N vf = 2997) \<and>
              (video_framerate o' = rate_24000_1001 \<longrightarrow> frame_rate_N vf = 2397)"
proof -
  let ?p = "double_mul (video_framerate o') (double_of_int 100)"
  from rawvideo_sent [OF assms] obtain vf where
    c: "calls = [Send_send_video_async_v2 (ndi_sender o') vf]" and
    d: "frame_rate_D vf = 100" and n: "frame_rate_N vf = double_to_int ?p"
    by blast
  have fl: "frame_rate_N vf = \<lfloor>dval ?p\<rfloor>" if "0 \<le> dval ?p" "dval ?p < 2 ^ 31"
  proof -
    have z: "- (2 ^ 31) - 1 < (0 :: real)" by simp
    from z that(1) have "- (2 ^ 31) - 1 < dval ?p" by (rule less_le_trans)
    from double_to_int_trunc [OF this that(2)] that(1) n show ?thesis by simp
  qed
  have ce: "frame_rate_N vf = \<lceil>dval ?p\<rceil>" if "- (2 ^ 31) - 1 < dval ?p" "dval ?p < 0"
  proof -
    have z: "(0 :: real) < 2 ^ 31" by simp
    from that(2) z have "dval ?p < 2 ^ 31" by (rule less_trans)
    from double_to_int_trunc [OF that(1) this] that(2) n show ?thesis by simp
  qed
  have a: "frame_rate_N vf = 2997" if "video_framerate o' = rate_29_97"
    using n that by (simp only: rate_29_97_numerator)
  have b: "frame_rate_N vf = 2397" if "video_framerate o' = rate_24000_1001"
    using n that by (simp only: rate_24000_1001_numerator)
  from c d n fl ce a b show ?thesis by blast
qed

text \<open>The running instance of the scenario, and that a frame delivered to it is sent.\<close>

lemma video_running_facts:
  "started (video_running rate)" "frame_width (video_running rate) = 4"
  "frame_height (video_running rate) = 2" "video_framerate (video_running rate) = rate"
  "frame_fourcc (video_running rate) = NDIlib_FourCC_video_type_NV12"
  "ndi_sender (video_running rate) = Some 1"
  by (simp_all add: video_running_def start_eval)

lemma video_running_sends:
  "\<exists>o1 calls. ndi_output_rawvideo (video_running rate)
      \<lparr>v_data = s1_input, v_linesize = (\<lambda>p. 4), v_timestamp = 0\<rparr> = Some (o1, calls)"
  by (simp add: ndi_output_rawvideo_def video_running_facts Let_def)

theorem frame_rate_amended_witness:
  "started (video_running rate_29_97) \<and> frame_width (video_running rate_29_97) \<noteq> 0 \<and>
   frame_height (video_running rate_29_97) \<noteq> 0 \<and>
   map_option (\<lambda>(o1, calls). map (\<lambda>vf. (frame_rate_N vf, frame_rate_D vf)) (sent_video calls))
     (ndi_output_rawvideo (video_running rate_29_97)
        \<lparr>v_data = s1_input, v_linesize = (\<lambda>p. 4), v_timestamp = 0\<rparr>) = Some [(2997, 100)]"
proof -
  let ?o = "video_running rate_29_97"
  let ?f = "\<lparr>v_data = s1_input, v_linesize = (\<lambda>p. 4), v_timestamp = 0\<rparr>"
  have h: "started ?o" "frame_width ?o \<noteq> 0" "frame_height ?o \<noteq> 0"
    by (simp_all add: video_running_facts)
  from video_running_sends obtain o1 calls where r: "ndi_output_rawvideo ?o ?f = Some (o1, calls)"
    by blast
  from frame_rate_amended [OF h r] obtain vf where
    "calls = [Send_send_video_async_v2 (ndi_sender ?o) vf]" "frame_rate_D vf = 100"
    "video_framerate ?o = rate_29_97 \<longrightarrow> frame_rate_N vf = 2997"
    by blast
  then have "map (\<lambda>vf. (frame_rate_N vf, frame_rate_D vf)) (sent_video calls) = [(2997, 100)]"
    by (simp add: video_running_facts)
  with h r show ?thesis by simp
qed

text \<open>
  \<^bold>\<open>C4\<close> as stated fails. A host reporting 24000/1001 frames per second (23.976...,
  the film rate) is started and one frame is delivered: the descriptor sent has the
  numerator 2397, where \<open>round (framerate * 100)\<close> is 2398.
\<close>

theorem frame_rate_counterexample:
  "\<not> frame_rate_claim (video_running rate_24000_1001)
        \<lparr>v_data = s1_input, v_linesize = (\<lambda>p. 4), v_timestamp = 0\<rparr> \<and>
   map_option (\<lambda>(o1, calls). map frame_rate_N (sent_video calls))
     (ndi_output_rawvideo (video_running rate_24000_1001)
        \<lparr>v_data = s1_input, v_linesize = (\<lambda>p. 4), v_timestamp = 0\<rparr>) = Some [2397] \<and>
   round (dval (video_framerate (video_running rate_24000_1001)) * 100) = 2398"
  by (simp add: frame_rate_claim_def ndi_output_rawvideo_def video_running_facts Let_def
        rate_24000_1001_numerator rate_24000_1001_round)

end
